theory Spec2Isabelle
  imports Main "HOL-Library.Sublist" "HOL-Library.Word" "HOL-Library.Char_ord"
    "HOL-Library.List_Lexorder"
begin

section \<open>Strings: the library functions the codec calls\<close>

text \<open>
  A Go string is a sequence of bytes; it is modelled as \<^typ>\<open>string\<close>, one
  \<^typ>\<open>char\<close> per byte.

  \<^verbatim>\<open>strings.Index(s, sep)\<close>: position of the leftmost occurrence of \<open>sep\<close>
  in \<open>s\<close>, \<open>None\<close> for Go's \<open>-1\<close>.
\<close>

fun Index :: "string \<Rightarrow> string \<Rightarrow> nat option" where
  "Index [] sep = (if sep = [] then Some 0 else None)"
| "Index (c # cs) sep =
     (if prefix sep (c # cs) then Some 0 else map_option Suc (Index cs sep))"

lemma Index_bound: "Index s sep = Some m \<Longrightarrow> m + length sep \<le> length s"
proof (induction s arbitrary: m)
  case Nil
  then show ?case by (simp split: if_splits)
next
  case (Cons c cs)
  show ?case
  proof (cases "prefix sep (c # cs)")
    case True
    with Cons.prems have "m = 0" by simp
    with prefix_length_le [OF True] show ?thesis by simp
  next
    case False
    with Cons.prems obtain k where k: "Index cs sep = Some k" "m = Suc k"
      by auto
    from Cons.IH [OF k(1)] k(2) show ?thesis by simp
  qed
qed

text \<open>
  \<^verbatim>\<open>strings.Split(s, sep)\<close>: the pieces of \<open>s\<close> between the occurrences of
  \<open>sep\<close>, found from the left and not overlapping. With an empty separator Go
  splits after every byte.
\<close>

function Split :: "string \<Rightarrow> string \<Rightarrow> string list" where
  "Split s sep =
     (if sep = [] then map (\<lambda>c. [c]) s
      else case Index s sep of
             None \<Rightarrow> [s]
           | Some m \<Rightarrow> take m s # Split (drop (m + length sep) s) sep)"
  by pat_completeness auto
termination
proof (relation "measure (\<lambda>(s, sep). length s)")
  show "wf (measure (\<lambda>(s, sep). length s))" by simp
next
  fix s sep :: string and m :: nat
  assume "sep \<noteq> []" and "Index s sep = Some m"
  then have "m + length sep \<le> length s" and "0 < length sep"
    by (simp_all add: Index_bound)
  then have "length (drop (m + length sep) s) < length s"
    unfolding length_drop by arith
  then show "((drop (m + length sep) s, sep), (s, sep)) \<in> measure (\<lambda>(s, sep). length s)"
    by simp
qed

declare Split.simps [simp del]

text \<open>\<^verbatim>\<open>strings.Join(parts, sep)\<close>, used to state the layout of a line.\<close>

fun Join :: "string list \<Rightarrow> string \<Rightarrow> string" where
  "Join [] sep = []"
| "Join [p] sep = p"
| "Join (p # q # ps) sep = p @ sep @ Join (q # ps) sep"

text \<open>
  \<^verbatim>\<open>strings.TrimSpace(s)\<close> removes leading and trailing Unicode white space.
  \<open>space_runes\<close> lists the UTF-8 encodings of the code points with the White_Space
  property (what \<^verbatim>\<open>unicode.IsSpace\<close> accepts): the six ASCII ones, U+0085,
  U+00A0, U+1680, U+2000 to U+200A, U+2028, U+2029, U+202F, U+205F and U+3000.
\<close>

definition space_runes :: "string list" where
  "space_runes =
     [[CHR 0x09], [CHR 0x0A], [CHR 0x0B], [CHR 0x0C], [CHR 0x0D], [CHR 0x20],
      [CHR 0xC2, CHR 0x85], [CHR 0xC2, CHR 0xA0],
      [CHR 0xE1, CHR 0x9A, CHR 0x80],
      [CHR 0xE2, CHR 0x80, CHR 0x80], [CHR 0xE2, CHR 0x80, CHR 0x81],
      [CHR 0xE2, CHR 0x80, CHR 0x82], [CHR 0xE2, CHR 0x80, CHR 0x83],
      [CHR 0xE2, CHR 0x80, CHR 0x84], [CHR 0xE2, CHR 0x80, CHR 0x85],
      [CHR 0xE2, CHR 0x80, CHR 0x86], [CHR 0xE2, CHR 0x80, CHR 0x87],
      [CHR 0xE2, CHR 0x80, CHR 0x88], [CHR 0xE2, CHR 0x80, CHR 0x89],
      [CHR 0xE2, CHR 0x80, CHR 0x8A],
      [CHR 0xE2, CHR 0x80, CHR 0xA8], [CHR 0xE2, CHR 0x80, CHR 0xA9],
      [CHR 0xE2, CHR 0x80, CHR 0xAF], [CHR 0xE2, CHR 0x81, CHR 0x9F],
      [CHR 0xE3, CHR 0x80, CHR 0x80]]"

text \<open>The length of the white-space rune that \<open>s\<close> starts with, if it starts with one.\<close>

definition leading_space :: "string list \<Rightarrow> string \<Rightarrow> nat option" where
  "leading_space rs s = map_option length (find (\<lambda>r. prefix r s) rs)"

lemma leading_space_pos:
  assumes "leading_space rs s = Some n" and "[] \<notin> set rs"
  shows "0 < n" and "n \<le> length s"
proof -
  from assms(1) obtain r where r: "find (\<lambda>r. prefix r s) rs = Some r" "n = length r"
    by (auto simp: leading_space_def)
  then have "r \<in> set rs" and p: "prefix r s"
    by (auto simp: find_Some_iff)
  with assms(2) have "r \<noteq> []" by auto
  with r(2) show "0 < n" by simp
  from prefix_length_le [OF p] r(2) show "n \<le> length s" by simp
qed

function trim_runes :: "string list \<Rightarrow> string \<Rightarrow> string" where
  "trim_runes rs s =
     (if [] \<in> set rs then s
      else case leading_space rs s of
             None \<Rightarrow> s
           | Some n \<Rightarrow> trim_runes rs (drop n s))"
  by pat_completeness auto
termination
proof (relation "measure (\<lambda>(rs, s). length s)")
  show "wf (measure (\<lambda>(rs, s). length s))" by simp
next
  fix rs :: "string list" and s :: string and n :: nat
  assume nonempty: "[] \<notin> set rs" and lead: "leading_space rs s = Some n"
  have "0 < n" and "n \<le> length s"
    using leading_space_pos [OF lead nonempty] by simp_all
  then have "length (drop n s) < length s"
    unfolding length_drop by arith
  then show "((rs, drop n s), (rs, s)) \<in> measure (\<lambda>(rs, s). length s)"
    by simp
qed

declare trim_runes.simps [simp del]

definition TrimSpace :: "string \<Rightarrow> string" where
  "TrimSpace s =
     rev (trim_runes (map rev space_runes) (rev (trim_runes space_runes s)))"

section \<open>Decimal numbers\<close>

definition isDigit :: "char \<Rightarrow> bool" where
  "isDigit c = (48 \<le> (of_char c :: nat) \<and> (of_char c :: nat) \<le> 57)"

definition digit_val :: "char \<Rightarrow> nat" where
  "digit_val c = of_char c - 48"

definition digit_chr :: "nat \<Rightarrow> char" where
  "digit_chr n = char_of (48 + n)"

text \<open>The value of a string of decimal digits, most significant first.\<close>

definition dec_val :: "string \<Rightarrow> int" where
  "dec_val ds = foldl (\<lambda>a c. 10 * a + int (digit_val c)) 0 ds"

text \<open>
  The decimal digits of a number that is not negative, without leading zeros (the
  callers pass absolute values).
\<close>

function dec_str :: "int \<Rightarrow> string" where
  "dec_str n =
     (if n < 10 then [digit_chr (nat n)]
      else dec_str (n div 10) @ [digit_chr (nat (n mod 10))])"
  by pat_completeness auto
termination
  by (relation "measure nat") auto

declare dec_str.simps [simp del]

text \<open>
  \<^verbatim>\<open>strconv.ParseInt(s, 10, 64)\<close>: an optional sign, then one or more decimal
  digits (with base 10 given, no prefix and no underscore is accepted); a value outside
  the range of int64 is an error.
\<close>

definition ParseInt :: "string \<Rightarrow> int option" where
  "ParseInt s =
     (let neg = (s \<noteq> [] \<and> hd s = CHR ''-'');
          ds = (if s \<noteq> [] \<and> (hd s = CHR ''+'' \<or> hd s = CHR ''-'') then tl s else s)
      in if ds = [] \<or> \<not> list_all isDigit ds then None
         else let un = dec_val ds; v = (if neg then - un else un)
              in if - (2 ^ 63) \<le> v \<and> v < 2 ^ 63 then Some v else None)"

text \<open>The verb \<^verbatim>\<open>%d\<close> of \<^verbatim>\<open>fmt.Sprintf\<close> on an int64.\<close>

definition FormatInt :: "int \<Rightarrow> string" where
  "FormatInt i = (if i < 0 then [CHR ''-''] else []) @ dec_str \<bar>i\<bar>"

section \<open>Time values and the RFC 3339 layout\<close>

text \<open>
  A \<^verbatim>\<open>time.Time\<close> is an instant together with a location. It is modelled by
  its presentation in its own location: the civil date and clock reading, the
  nanosecond, and the offset of the location from UTC in seconds east. The code only
  formats and parses times with the layout \<^verbatim>\<open>time.RFC3339\<close> and compares
  instants, and for these the offset in force is all of the location that counts.
\<close>

record Time =
  Year :: int
  Month :: int
  Day :: int
  Hour :: int
  Minute :: int
  Second :: int
  Nanosecond :: int
  Offset :: int

definition isLeap :: "int \<Rightarrow> bool" where
  "isLeap y = (y mod 4 = 0 \<and> (y mod 100 \<noteq> 0 \<or> y mod 400 = 0))"

definition daysBefore :: "int list" where
  "daysBefore = [0, 31, 59, 90, 120, 151, 181, 212, 243, 273, 304, 334, 365]"

definition daysIn :: "int \<Rightarrow> int \<Rightarrow> int" where
  "daysIn m y =
     (if m = 2 \<and> isLeap y then 29 else daysBefore ! nat m - daysBefore ! nat (m - 1))"

text \<open>Days from 1 January of year 1 to 1 January of year \<open>y\<close> (proleptic Gregorian).\<close>

definition days_before_year :: "int \<Rightarrow> int" where
  "days_before_year y = 365 * (y - 1) + (y - 1) div 4 - (y - 1) div 100 + (y - 1) div 400"

definition day_number :: "Time \<Rightarrow> int" where
  "day_number t =
     days_before_year (Year t) + daysBefore ! nat (Month t - 1)
       + (if isLeap (Year t) \<and> 3 \<le> Month t then 1 else 0) + (Day t - 1)"

text \<open>The instant of a time, in seconds since 0001-01-01T00:00:00Z.\<close>

definition abs_seconds :: "Time \<Rightarrow> int" where
  "abs_seconds t =
     day_number t * 86400 + Hour t * 3600 + Minute t * 60 + Second t - Offset t"

text \<open>\<^verbatim>\<open>Time.IsZero\<close>: the instant is 1 January of year 1, 00:00:00 UTC.\<close>

definition IsZero :: "Time \<Rightarrow> bool" where
  "IsZero t = (abs_seconds t = 0 \<and> Nanosecond t = 0)"

text \<open>\<^verbatim>\<open>t.After(u)\<close> compares instants.\<close>

definition After :: "Time \<Rightarrow> Time \<Rightarrow> bool" where
  "After t u =
     (abs_seconds t > abs_seconds u
      \<or> abs_seconds t = abs_seconds u \<and> Nanosecond t > Nanosecond u)"


text \<open>
  \<^verbatim>\<open>appendInt(b, x, width)\<close> of package time: a sign for a negative number,
  then the digits padded with zeros on the left up to the width.
\<close>

definition appendInt :: "int \<Rightarrow> nat \<Rightarrow> string" where
  "appendInt x width =
     (let ds = dec_str \<bar>x\<bar>
      in (if x < 0 then [CHR ''-''] else []) @ replicate (width - length ds) (CHR ''0'') @ ds)"

text \<open>
  The zone of the layout element \<^verbatim>\<open>Z07:00\<close>: \<open>Z\<close> for offset 0, else sign,
  hours and minutes. Go's \<^verbatim>\<open>offset / 60\<close> truncates towards zero, so the
  minutes are those of the absolute value, and an offset of less than a minute west
  still prints a plus sign.
\<close>

definition format_zone :: "int \<Rightarrow> string" where
  "format_zone off =
     (if off = 0 then [CHR ''Z'']
      else let zone = \<bar>off\<bar> div 60
           in (if off < 0 \<and> zone \<noteq> 0 then [CHR ''-''] else [CHR ''+''])
              @ appendInt (zone div 60) 2 @ [CHR '':''] @ appendInt (zone mod 60) 2)"

text \<open>\<^verbatim>\<open>t.Format(time.RFC3339)\<close>, layout \<^verbatim>\<open>2006-01-02T15:04:05Z07:00\<close>.\<close>

definition Format_RFC3339 :: "Time \<Rightarrow> string" where
  "Format_RFC3339 t =
     appendInt (Year t) 4 @ [CHR ''-''] @ appendInt (Month t) 2 @ [CHR ''-'']
       @ appendInt (Day t) 2 @ [CHR ''T''] @ appendInt (Hour t) 2 @ [CHR '':'']
       @ appendInt (Minute t) 2 @ [CHR '':''] @ appendInt (Second t) 2
       @ format_zone (Offset t)"

text \<open>
  \<^verbatim>\<open>getnum(s, fixed)\<close> of package time: one or two leading digits; exactly two
  when \<open>fixed\<close>.
\<close>

fun getnum :: "string \<Rightarrow> bool \<Rightarrow> (int \<times> string) option" where
  "getnum [] fixed = None"
| "getnum [a] fixed = (if isDigit a \<and> \<not> fixed then Some (int (digit_val a), []) else None)"
| "getnum (a # b # rest) fixed =
     (if \<not> isDigit a then None
      else if \<not> isDigit b then (if fixed then None else Some (int (digit_val a), b # rest))
      else Some (int (digit_val a * 10 + digit_val b), rest))"

text \<open>A literal byte of the layout must be the next byte of the value.\<close>

fun expect :: "char \<Rightarrow> string \<Rightarrow> string option" where
  "expect c [] = None"
| "expect c (x # r) = (if x = c then Some r else None)"

text \<open>
  After the seconds \<^verbatim>\<open>time.Parse\<close> accepts a fraction that the layout does
  not have: a period or comma and digits, of which nine count.
\<close>

definition parse_frac :: "string \<Rightarrow> int \<times> string" where
  "parse_frac v =
     (case v of
        c # d # rest \<Rightarrow>
          if (c = CHR ''.'' \<or> c = CHR '','') \<and> isDigit d
          then let ds = take 9 (takeWhile isDigit (d # rest))
               in (dec_val ds * 10 ^ (9 - length ds), dropWhile isDigit (d # rest))
          else (0, v)
      | _ \<Rightarrow> (0, v))"

text \<open>
  The zone: \<open>Z\<close>, or a sign, two digits, a colon and two digits. The range tests are
  Go's, which admit 24 hours and 60 minutes.
\<close>

definition parse_zone :: "string \<Rightarrow> (int \<times> string) option" where
  "parse_zone v =
     (case v of
        [] \<Rightarrow> None
      | c # r \<Rightarrow>
          if c = CHR ''Z'' then Some (0, r)
          else if length v < 6 then None
          else if v ! 3 \<noteq> CHR '':'' then None
          else (case getnum (take 2 r) True of
                  None \<Rightarrow> None
                | Some (hr, _) \<Rightarrow>
                    (case getnum (take 2 (drop 3 r)) True of
                       None \<Rightarrow> None
                     | Some (mm, _) \<Rightarrow>
                         if hr > 24 \<or> mm > 60 then None
                         else if c = CHR ''+'' then Some ((hr * 60 + mm) * 60, drop 5 r)
                         else if c = CHR ''-'' then Some (- ((hr * 60 + mm) * 60), drop 5 r)
                         else None)))"

text \<open>
  \<^verbatim>\<open>time.Parse(time.RFC3339, value)\<close> (Go 1.20 and later): a four-digit year,
  two-digit month and day, an hour of one or two digits, two-digit minute and second,
  an optional fraction, the zone, and nothing after it. The day is checked against the
  month last. The result presents the civil fields that were read, in a location with
  the offset that was read.
\<close>

definition Parse_RFC3339 :: "string \<Rightarrow> Time option" where
  "Parse_RFC3339 v =
     (if length v < 4 \<or> \<not> list_all isDigit (take 4 v) then None
      else
        let y = dec_val (take 4 v) in
        Option.bind (expect (CHR ''-'') (drop 4 v)) (\<lambda>v.
        Option.bind (getnum v True) (\<lambda>(mo, v).
        if mo \<le> 0 \<or> 12 < mo then None else
        Option.bind (expect (CHR ''-'') v) (\<lambda>v.
        Option.bind (getnum v True) (\<lambda>(d, v).
        Option.bind (expect (CHR ''T'') v) (\<lambda>v.
        Option.bind (getnum v False) (\<lambda>(h, v).
        if 24 \<le> h then None else
        Option.bind (expect (CHR '':'') v) (\<lambda>v.
        Option.bind (getnum v True) (\<lambda>(mi, v).
        if 60 \<le> mi then None else
        Option.bind (expect (CHR '':'') v) (\<lambda>v.
        Option.bind (getnum v True) (\<lambda>(sec, v).
        if 60 \<le> sec then None else
        (case parse_frac v of (ns, v) \<Rightarrow>
        Option.bind (parse_zone v) (\<lambda>(off, v).
        if v \<noteq> [] then None
        else if d < 1 \<or> d > daysIn mo y then None
        else Some \<lparr>Year = y, Month = mo, Day = d, Hour = h, Minute = mi, Second = sec,
                    Nanosecond = ns, Offset = off\<rparr>)))))))))))))"

text \<open>The zero value \<^verbatim>\<open>time.Time{}\<close>, which a filter without a bound holds.\<close>

definition zero_Time :: Time where
  "zero_Time =
     \<lparr>Year = 1, Month = 1, Day = 1, Hour = 0, Minute = 0, Second = 0, Nanosecond = 0,
      Offset = 0\<rparr>"

section \<open>JSON syntax: the scanner behind \<^verbatim>\<open>json.Unmarshal\<close>\<close>

text \<open>
  \<^verbatim>\<open>json.Unmarshal\<close> first runs \<^verbatim>\<open>checkValid\<close>: a state machine that
  reads the input byte by byte, with a stack of the objects and arrays that are open.
  The states below are the step functions of Go's scanner.
\<close>

datatype scan_step =
    BeginValueOrEmpty | BeginValue | BeginStringOrEmpty | BeginString
  | EndValue | EndTop
  | InString | InStringEsc | InStringEscU | InStringEscU1 | InStringEscU12 | InStringEscU123
  | NumNeg | Num1 | Num0 | NumDot | NumDot0 | NumE | NumESign | NumE0
  | LitT | LitTr | LitTru | LitF | LitFa | LitFal | LitFals | LitN | LitNu | LitNul
  | ScanError

datatype parse_state = parseObjectKey | parseObjectValue | parseArrayValue

record scanner =
  step :: scan_step
  parseState :: "parse_state list"
  endTop :: bool
  err :: bool

definition maxNestingDepth :: nat where
  "maxNestingDepth = 10000"

definition json_isSpace :: "char \<Rightarrow> bool" where
  "json_isSpace c = (c = CHR '' '' \<or> c = CHR 0x09 \<or> c = CHR 0x0D \<or> c = CHR 0x0A)"

definition isHex :: "char \<Rightarrow> bool" where
  "isHex c =
     (isDigit c \<or> (97 \<le> (of_char c :: nat) \<and> (of_char c :: nat) \<le> 102)
      \<or> (65 \<le> (of_char c :: nat) \<and> (of_char c :: nat) \<le> 70))"

definition scan_error :: "scanner \<Rightarrow> scanner" where
  "scan_error s = s\<lparr>step := ScanError, err := True\<rparr>"

text \<open>The stack is kept with its top first.\<close>

definition pushParseState :: "scanner \<Rightarrow> parse_state \<Rightarrow> scan_step \<Rightarrow> scanner" where
  "pushParseState s ps next_step =
     (let s' = s\<lparr>parseState := ps # parseState s, step := next_step\<rparr>
      in if length (parseState s') \<le> maxNestingDepth then s' else scan_error s')"

definition popParseState :: "scanner \<Rightarrow> scanner" where
  "popParseState s =
     (let rest = tl (parseState s)
      in if rest = [] then s\<lparr>parseState := rest, step := EndTop, endTop := True\<rparr>
         else s\<lparr>parseState := rest, step := EndValue\<rparr>)"

definition stateEndTop :: "scanner \<Rightarrow> char \<Rightarrow> scanner" where
  "stateEndTop s c = (if \<not> json_isSpace c then scan_error s else s)"

definition stateEndValue :: "scanner \<Rightarrow> char \<Rightarrow> scanner" where
  "stateEndValue s c =
     (case parseState s of
        [] \<Rightarrow> stateEndTop (s\<lparr>step := EndTop, endTop := True\<rparr>) c
      | ps # rest \<Rightarrow>
          if json_isSpace c then s\<lparr>step := EndValue\<rparr>
          else (case ps of
                  parseObjectKey \<Rightarrow>
                    if c = CHR '':''
                    then s\<lparr>parseState := parseObjectValue # rest, step := BeginValue\<rparr>
                    else scan_error s
                | parseObjectValue \<Rightarrow>
                    if c = CHR '',''
                    then s\<lparr>parseState := parseObjectKey # rest, step := BeginString\<rparr>
                    else if c = CHR ''}'' then popParseState s
                    else scan_error s
                | parseArrayValue \<Rightarrow>
                    if c = CHR '','' then s\<lparr>step := BeginValue\<rparr>
                    else if c = CHR '']'' then popParseState s
                    else scan_error s))"

definition stateBeginValue :: "scanner \<Rightarrow> char \<Rightarrow> scanner" where
  "stateBeginValue s c =
     (if json_isSpace c then s
      else if c = CHR ''{'' then pushParseState s parseObjectKey BeginStringOrEmpty
      else if c = CHR ''['' then pushParseState s parseArrayValue BeginValueOrEmpty
      else if c = CHR 0x22 then s\<lparr>step := InString\<rparr>
      else if c = CHR ''-'' then s\<lparr>step := NumNeg\<rparr>
      else if c = CHR ''0'' then s\<lparr>step := Num0\<rparr>
      else if c = CHR ''t'' then s\<lparr>step := LitT\<rparr>
      else if c = CHR ''f'' then s\<lparr>step := LitF\<rparr>
      else if c = CHR ''n'' then s\<lparr>step := LitN\<rparr>
      else if isDigit c then s\<lparr>step := Num1\<rparr>
      else scan_error s)"

definition stateBeginString :: "scanner \<Rightarrow> char \<Rightarrow> scanner" where
  "stateBeginString s c =
     (if json_isSpace c then s
      else if c = CHR 0x22 then s\<lparr>step := InString\<rparr>
      else scan_error s)"

definition state0 :: "scanner \<Rightarrow> char \<Rightarrow> scanner" where
  "state0 s c =
     (if c = CHR ''.'' then s\<lparr>step := NumDot\<rparr>
      else if c = CHR ''e'' \<or> c = CHR ''E'' then s\<lparr>step := NumE\<rparr>
      else stateEndValue s c)"

definition stateESign :: "scanner \<Rightarrow> char \<Rightarrow> scanner" where
  "stateESign s c = (if isDigit c then s\<lparr>step := NumE0\<rparr> else scan_error s)"

definition literal_step :: "scanner \<Rightarrow> char \<Rightarrow> char \<Rightarrow> scan_step \<Rightarrow> scanner" where
  "literal_step s c want next_step = (if c = want then s\<lparr>step := next_step\<rparr> else scan_error s)"

text \<open>One byte: the step function that the scanner is in is applied to it.\<close>

definition scan_byte :: "scanner \<Rightarrow> char \<Rightarrow> scanner" where
  "scan_byte s c =
     (case step s of
        BeginValueOrEmpty \<Rightarrow>
          if json_isSpace c then s
          else if c = CHR '']'' then stateEndValue s c
          else stateBeginValue s c
      | BeginValue \<Rightarrow> stateBeginValue s c
      | BeginStringOrEmpty \<Rightarrow>
          if json_isSpace c then s
          else if c = CHR ''}''
          then stateEndValue (s\<lparr>parseState := parseObjectValue # tl (parseState s)\<rparr>) c
          else stateBeginString s c
      | BeginString \<Rightarrow> stateBeginString s c
      | EndValue \<Rightarrow> stateEndValue s c
      | EndTop \<Rightarrow> stateEndTop s c
      | InString \<Rightarrow>
          if c = CHR 0x22 then s\<lparr>step := EndValue\<rparr>
          else if c = CHR 0x5C then s\<lparr>step := InStringEsc\<rparr>
          else if (of_char c :: nat) < 32 then scan_error s
          else s
      | InStringEsc \<Rightarrow>
          if c \<in> set [CHR ''b'', CHR ''f'', CHR ''n'', CHR ''r'', CHR ''t'', CHR 0x5C,
                        CHR ''/'', CHR 0x22]
          then s\<lparr>step := InString\<rparr>
          else if c = CHR ''u'' then s\<lparr>step := InStringEscU\<rparr>
          else scan_error s
      | InStringEscU \<Rightarrow> if isHex c then s\<lparr>step := InStringEscU1\<rparr> else scan_error s
      | InStringEscU1 \<Rightarrow> if isHex c then s\<lparr>step := InStringEscU12\<rparr> else scan_error s
      | InStringEscU12 \<Rightarrow> if isHex c then s\<lparr>step := InStringEscU123\<rparr> else scan_error s
      | InStringEscU123 \<Rightarrow> if isHex c then s\<lparr>step := InString\<rparr> else scan_error s
      | NumNeg \<Rightarrow>
          if c = CHR ''0'' then s\<lparr>step := Num0\<rparr>
          else if isDigit c then s\<lparr>step := Num1\<rparr>
          else scan_error s
      | Num1 \<Rightarrow> if isDigit c then s\<lparr>step := Num1\<rparr> else state0 s c
      | Num0 \<Rightarrow> state0 s c
      | NumDot \<Rightarrow> if isDigit c then s\<lparr>step := NumDot0\<rparr> else scan_error s
      | NumDot0 \<Rightarrow>
          if isDigit c then s
          else if c = CHR ''e'' \<or> c = CHR ''E'' then s\<lparr>step := NumE\<rparr>
          else stateEndValue s c
      | NumE \<Rightarrow>
          if c = CHR ''+'' \<or> c = CHR ''-'' then s\<lparr>step := NumESign\<rparr> else stateESign s c
      | NumESign \<Rightarrow> stateESign s c
      | NumE0 \<Rightarrow> if isDigit c then s else stateEndValue s c
      | LitT \<Rightarrow> literal_step s c (CHR ''r'') LitTr
      | LitTr \<Rightarrow> literal_step s c (CHR ''u'') LitTru
      | LitTru \<Rightarrow> literal_step s c (CHR ''e'') EndValue
      | LitF \<Rightarrow> literal_step s c (CHR ''a'') LitFa
      | LitFa \<Rightarrow> literal_step s c (CHR ''l'') LitFal
      | LitFal \<Rightarrow> literal_step s c (CHR ''s'') LitFals
      | LitFals \<Rightarrow> literal_step s c (CHR ''e'') EndValue
      | LitN \<Rightarrow> literal_step s c (CHR ''u'') LitNu
      | LitNu \<Rightarrow> literal_step s c (CHR ''l'') LitNul
      | LitNul \<Rightarrow> literal_step s c (CHR ''l'') EndValue
      | ScanError \<Rightarrow> s)"

definition scanner_reset :: scanner where
  "scanner_reset = \<lparr>step = BeginValue, parseState = [], endTop = False, err = False\<rparr>"

text \<open>
  \<^verbatim>\<open>checkValid(data)\<close>: all bytes are scanned, then the end of input is
  signalled by a space; the input is valid when no error arose and the top-level value
  is complete.
\<close>

definition checkValid :: "string \<Rightarrow> bool" where
  "checkValid data =
     (let s = foldl scan_byte scanner_reset data
      in if err s then False
         else if endTop s then True
         else endTop (scan_byte s (CHR '' '')))"

text \<open>
  \<^verbatim>\<open>json.Unmarshal(data, &payload)\<close> with \<open>payload\<close> a
  \<^verbatim>\<open>json.RawMessage\<close>: when the input is valid, the raw message receives the
  bytes of the value, which is the input without the JSON white space around it.
\<close>

definition Unmarshal_RawMessage :: "string \<Rightarrow> string option" where
  "Unmarshal_RawMessage data =
     (if checkValid data
      then Some (rev (dropWhile json_isSpace (rev (dropWhile json_isSpace data))))
      else None)"

section \<open>The event codec (models.go)\<close>

text \<open>The user id is an int64.\<close>

record Event =
  Timestamp :: Time
  UserID :: "64 word"
  EventType :: string
  Payload :: string

text \<open>
  The errors of \<^verbatim>\<open>ParseEvent\<close>, which the source builds with
  \<^verbatim>\<open>fmt.Errorf\<close>, under the names of the specification. \<open>MalformedLine n\<close>
  is ``invalid format: expected 4 parts, got n''; the messages for a bad timestamp and a
  bad user id quote the text of the field.
\<close>

datatype decode_error =
    MalformedLine nat
  | InvalidTimestamp string
  | InvalidUserID string
  | EmptyEventType
  | InvalidPayload

definition sep :: string where
  "sep = '' | ''"

text \<open>\<^verbatim>\<open>func (e *Event) String() string\<close>\<close>

definition String :: "Event \<Rightarrow> string" where
  "String e =
     Format_RFC3339 (Timestamp e) @ sep @ FormatInt (sint (UserID e)) @ sep
       @ EventType e @ sep @ Payload e"

text \<open>\<^verbatim>\<open>func ParseEvent(line string) (*Event, error)\<close>\<close>

definition ParseEvent :: "string \<Rightarrow> decode_error + Event" where
  "ParseEvent line =
     (let parts = Split line sep in
      if length parts \<noteq> 4 then Inl (MalformedLine (length parts))
      else
        case Parse_RFC3339 (TrimSpace (parts ! 0)) of
          None \<Rightarrow> Inl (InvalidTimestamp (TrimSpace (parts ! 0)))
        | Some timestamp \<Rightarrow>
            (case ParseInt (TrimSpace (parts ! 1)) of
               None \<Rightarrow> Inl (InvalidUserID (TrimSpace (parts ! 1)))
             | Some userID \<Rightarrow>
                 let eventType = TrimSpace (parts ! 2) in
                 if eventType = [] then Inl EmptyEventType
                 else
                   (case Unmarshal_RawMessage (TrimSpace (parts ! 3)) of
                      None \<Rightarrow> Inl InvalidPayload
                    | Some payload \<Rightarrow>
                        Inr \<lparr>Timestamp = timestamp, UserID = word_of_int userID,
                             EventType = eventType, Payload = payload\<rparr>)))"

text \<open>\<^verbatim>\<open>QueryFilters\<close> and its validation.\<close>

record QueryFilters =
  qf_EventType :: string
  From :: Time
  To :: Time

datatype filter_error = InvalidRange

definition IsEmpty :: "QueryFilters \<Rightarrow> bool" where
  "IsEmpty qf = (qf_EventType qf = [] \<and> IsZero (From qf) \<and> IsZero (To qf))"

definition Validate :: "QueryFilters \<Rightarrow> filter_error option" where
  "Validate qf =
     (if \<not> IsZero (From qf) \<and> \<not> IsZero (To qf) \<and> After (From qf) (To qf)
      then Some InvalidRange else None)"

section \<open>The storage collaborator\<close>

text \<open>
  The table \<open>events\<close> of the SQLite database: a row holds the user id, the timestamp
  as text, the event type and the payload. Rows are kept in the order of their
  auto-incremented id.
\<close>

record Row =
  row_user_id :: "64 word"
  row_timestamp :: string
  row_event_type :: string
  row_payload :: string

text \<open>
  A transaction handle (\<^verbatim>\<open>*sql.Tx\<close>) is open with the rows inserted through it,
  or done (committed or rolled back). The database keeps the committed transactions,
  oldest first, each as the batch of rows it made durable; the transactions begun so
  far, indexed by handle; and the number of storage operations attempted.
\<close>

datatype tx_state = TxOpen "Row list" | TxDone

record DB =
  batches :: "Row list list"
  txs :: "tx_state list"
  ops :: nat

text \<open>The persisted relation: all rows of all committed transactions.\<close>

definition persisted :: "DB \<Rightarrow> Row list" where
  "persisted db = concat (batches db)"

text \<open>
  Storage failures are not decided by the program. A fault schedule \<open>fails\<close> says of
  each storage operation, by its number, whether it fails.

  \<^verbatim>\<open>db.Begin()\<close>
\<close>

definition db_Begin :: "(nat \<Rightarrow> bool) \<Rightarrow> DB \<Rightarrow> nat option \<times> DB" where
  "db_Begin fails db =
     (if fails (ops db) then (None, db\<lparr>ops := Suc (ops db)\<rparr>)
      else (Some (length (txs db)),
            db\<lparr>txs := txs db @ [TxOpen []], ops := Suc (ops db)\<rparr>))"

text \<open>
  \<^verbatim>\<open>stmt.Exec(...)\<close> of the insert statement inside transaction \<open>tx\<close>; the
  Boolean is success. A failed insert adds no row.
\<close>

definition tx_Exec :: "(nat \<Rightarrow> bool) \<Rightarrow> nat \<Rightarrow> Row \<Rightarrow> DB \<Rightarrow> bool \<times> DB" where
  "tx_Exec fails tx r db =
     (if fails (ops db) \<or> length (txs db) \<le> tx then (False, db\<lparr>ops := Suc (ops db)\<rparr>)
      else case txs db ! tx of
             TxDone \<Rightarrow> (False, db\<lparr>ops := Suc (ops db)\<rparr>)
           | TxOpen rs \<Rightarrow>
               (True, db\<lparr>txs := (txs db)[tx := TxOpen (rs @ [r])], ops := Suc (ops db)\<rparr>))"

text \<open>
  \<^verbatim>\<open>tx.Commit()\<close>: on a transaction that is done it fails without reaching the
  storage (\<^verbatim>\<open>sql.ErrTxDone\<close>). Otherwise the handle is done afterwards, and its
  rows are durable exactly when the commit succeeded.
\<close>

definition tx_Commit :: "(nat \<Rightarrow> bool) \<Rightarrow> nat \<Rightarrow> DB \<Rightarrow> bool \<times> DB" where
  "tx_Commit fails tx db =
     (if length (txs db) \<le> tx then (False, db)
      else case txs db ! tx of
             TxDone \<Rightarrow> (False, db)
           | TxOpen rs \<Rightarrow>
               if fails (ops db)
               then (False, db\<lparr>txs := (txs db)[tx := TxDone], ops := Suc (ops db)\<rparr>)
               else (True, db\<lparr>batches := batches db @ [rs],
                               txs := (txs db)[tx := TxDone], ops := Suc (ops db)\<rparr>))"

text \<open>
  \<^verbatim>\<open>tx.Rollback()\<close>: an open transaction is discarded with its rows; on a
  transaction that is done nothing happens (the caller ignores \<^verbatim>\<open>ErrTxDone\<close>).
\<close>

definition tx_Rollback :: "nat \<Rightarrow> DB \<Rightarrow> DB" where
  "tx_Rollback tx db =
     (if length (txs db) \<le> tx then db
      else case txs db ! tx of
             TxDone \<Rightarrow> db
           | TxOpen rs \<Rightarrow> db\<lparr>txs := (txs db)[tx := TxDone], ops := Suc (ops db)\<rparr>)"

section \<open>Ingestion: \<^verbatim>\<open>EventStore.Record\<close>\<close>

text \<open>
  The file as the scanner delivers it: the lines (\<^verbatim>\<open>scanner.Text()\<close>, without
  their line ends) that \<^verbatim>\<open>scanner.Scan()\<close> yields before it stops, and whether it
  stopped on a read error (\<^verbatim>\<open>scanner.Err()\<close>) rather than at the end of the file.
\<close>

record Input =
  in_lines :: "string list"
  in_read_error :: bool

datatype record_error =
    OpenFailed | BeginFailed | InsertFailed | CommitBatchFailed | BeginNewFailed
  | ReadFailed | CommitFinalFailed

text \<open>What \<^verbatim>\<open>Record\<close> prints: a warning with the decode error, or the progress.\<close>

datatype record_output = Warning decode_error | Processed nat

text \<open>The local variables of \<^verbatim>\<open>Record\<close> that change in the loop.\<close>

record LoopState =
  ls_tx :: nat
  ls_count :: nat
  ls_batchSize :: nat
  ls_out :: "record_output list"
  ls_db :: DB

definition row_of :: "Event \<Rightarrow> Row" where
  "row_of event =
     \<lparr>row_user_id = UserID event,
      row_timestamp = Format_RFC3339 (Timestamp event),
      row_event_type = EventType event,
      row_payload = Payload event\<rparr>"

text \<open>
  The loop \<^verbatim>\<open>for scanner.Scan() { ... }\<close> with batch threshold \<open>B\<close>. \<open>Inl\<close> is
  a \<^verbatim>\<open>return\<close> from inside the loop, with the error; \<open>Inr\<close> is the state when the
  scanner stops.
\<close>

fun Record_loop ::
  "(nat \<Rightarrow> bool) \<Rightarrow> nat \<Rightarrow> string list \<Rightarrow> LoopState \<Rightarrow> (record_error \<times> LoopState) + LoopState"
where
  "Record_loop fails B [] st = Inr st"
| "Record_loop fails B (line # rest) st =
     (if line = [] then Record_loop fails B rest st
      else case ParseEvent line of
             Inl e \<Rightarrow> Record_loop fails B rest (st\<lparr>ls_out := ls_out st @ [Warning e]\<rparr>)
           | Inr event \<Rightarrow>
               (case tx_Exec fails (ls_tx st) (row_of event) (ls_db st) of
                  (False, db1) \<Rightarrow> Inl (InsertFailed, st\<lparr>ls_db := db1\<rparr>)
                | (True, db1) \<Rightarrow>
                    let st1 = st\<lparr>ls_count := Suc (ls_count st),
                                 ls_batchSize := Suc (ls_batchSize st), ls_db := db1\<rparr>
                    in if B \<le> ls_batchSize st1
                       then (case tx_Commit fails (ls_tx st1) db1 of
                               (False, db2) \<Rightarrow> Inl (CommitBatchFailed, st1\<lparr>ls_db := db2\<rparr>)
                             | (True, db2) \<Rightarrow>
                                 let st2 = st1\<lparr>ls_out := ls_out st1 @ [Processed (ls_count st1)],
                                               ls_db := db2\<rparr>
                                 in (case db_Begin fails db2 of
                                       (None, db3) \<Rightarrow> Inl (BeginNewFailed, st2\<lparr>ls_db := db3\<rparr>)
                                     | (Some tx', db3) \<Rightarrow>
                                         Record_loop fails B rest
                                           (st2\<lparr>ls_tx := tx', ls_batchSize := 0, ls_db := db3\<rparr>)))
                       else Record_loop fails B rest st1))"

record RecordResult =
  rr_count :: nat
  rr_err :: "record_error option"
  rr_out :: "record_output list"
  rr_db :: DB

text \<open>
  \<^verbatim>\<open>Record\<close> with the batch threshold as a parameter. The input is \<open>None\<close> when
  the file cannot be opened. The deferred \<^verbatim>\<open>tx.Rollback()\<close> was registered with
  the first transaction, and it is this handle that is rolled back on every way out.
\<close>

definition Record_with ::
  "nat \<Rightarrow> (nat \<Rightarrow> bool) \<Rightarrow> Input option \<Rightarrow> DB \<Rightarrow> RecordResult" where
  "Record_with B fails file db =
     (case file of
        None \<Rightarrow> \<lparr>rr_count = 0, rr_err = Some OpenFailed, rr_out = [], rr_db = db\<rparr>
      | Some inp \<Rightarrow>
          (case db_Begin fails db of
             (None, db0) \<Rightarrow>
               \<lparr>rr_count = 0, rr_err = Some BeginFailed, rr_out = [], rr_db = db0\<rparr>
           | (Some tx0, db0) \<Rightarrow>
               (case Record_loop fails B (in_lines inp)
                       \<lparr>ls_tx = tx0, ls_count = 0, ls_batchSize = 0, ls_out = [], ls_db = db0\<rparr> of
                  Inl (e, st) \<Rightarrow>
                    \<lparr>rr_count = ls_count st, rr_err = Some e, rr_out = ls_out st,
                     rr_db = tx_Rollback tx0 (ls_db st)\<rparr>
                | Inr st \<Rightarrow>
                    if in_read_error inp
                    then \<lparr>rr_count = ls_count st, rr_err = Some ReadFailed, rr_out = ls_out st,
                          rr_db = tx_Rollback tx0 (ls_db st)\<rparr>
                    else (case tx_Commit fails (ls_tx st) (ls_db st) of
                            (False, db1) \<Rightarrow>
                              \<lparr>rr_count = ls_count st, rr_err = Some CommitFinalFailed,
                               rr_out = ls_out st, rr_db = tx_Rollback tx0 db1\<rparr>
                          | (True, db1) \<Rightarrow>
                              \<lparr>rr_count = ls_count st, rr_err = None, rr_out = ls_out st,
                               rr_db = tx_Rollback tx0 db1\<rparr>))))"

definition maxBatchSize :: nat where
  "maxBatchSize = 10000"

text \<open>\<^verbatim>\<open>func (es *EventStore) Record(filename string) (int, error)\<close>\<close>

definition Record :: "(nat \<Rightarrow> bool) \<Rightarrow> Input option \<Rightarrow> DB \<Rightarrow> RecordResult" where
  "Record fails file db = Record_with maxBatchSize fails file db"

section \<open>Retrieval: \<^verbatim>\<open>EventStore.Query\<close>\<close>

text \<open>
  The conditions of the \<^verbatim>\<open>WHERE\<close> clause, in the order in which the source
  appends them. The column \<open>timestamp\<close> is text, and SQLite compares text byte by
  byte, which is the lexicographic order of \<^typ>\<open>string\<close>.
\<close>

definition where_conditions :: "64 word \<Rightarrow> QueryFilters \<Rightarrow> (Row \<Rightarrow> bool) list" where
  "where_conditions userID filters =
     [\<lambda>r. row_user_id r = userID]
     @ (if qf_EventType filters \<noteq> [] then [\<lambda>r. row_event_type r = qf_EventType filters]
        else [])
     @ (if \<not> IsZero (From filters)
        then [\<lambda>r. Format_RFC3339 (From filters) \<le> row_timestamp r] else [])
     @ (if \<not> IsZero (To filters)
        then [\<lambda>r. row_timestamp r \<le> Format_RFC3339 (To filters)] else [])"

definition matches :: "(Row \<Rightarrow> bool) list \<Rightarrow> Row \<Rightarrow> bool" where
  "matches conds r = list_all (\<lambda>c. c r) conds"

text \<open>
  \<^verbatim>\<open>db.Query(query, args...)\<close>: the committed rows that satisfy the conditions,
  \<^verbatim>\<open>ORDER BY timestamp\<close>. Rows with equal timestamps keep the order of their ids.
\<close>

definition db_Query :: "(nat \<Rightarrow> bool) \<Rightarrow> (Row \<Rightarrow> bool) list \<Rightarrow> DB \<Rightarrow> Row list option \<times> DB" where
  "db_Query fails conds db =
     (if fails (ops db) then (None, db\<lparr>ops := Suc (ops db)\<rparr>)
      else (Some (sort_key row_timestamp (filter (matches conds) (persisted db))),
            db\<lparr>ops := Suc (ops db)\<rparr>))"

datatype query_error =
    InvalidFilters filter_error | QueryFailed | CorruptTimestamp | RowsFailed

record QueryResult =
  qr_count :: nat
  qr_err :: "query_error option"
  qr_events :: "Event list"
  qr_db :: DB

text \<open>
  The body of the loop over the result rows: \<^verbatim>\<open>rows.Scan\<close> fills the user
  id, the event type and the payload, and the timestamp text is parsed; \<open>None\<close> when
  the stored timestamp does not parse.
\<close>

definition scan_row :: "Row \<Rightarrow> Event option" where
  "scan_row r =
     (case Parse_RFC3339 (row_timestamp r) of
        None \<Rightarrow> None
      | Some ts \<Rightarrow>
          Some \<lparr>Timestamp = ts, UserID = row_user_id r, EventType = row_event_type r,
                Payload = row_payload r\<rparr>)"

definition next_op :: "DB \<Rightarrow> DB" where
  "next_op db = db\<lparr>ops := Suc (ops db)\<rparr>"

text \<open>
  The loop \<^verbatim>\<open>for rows.Next() { ... }\<close>. Every \<^verbatim>\<open>rows.Next()\<close> is a storage
  operation; when it fails the loop ends and \<^verbatim>\<open>rows.Err()\<close> reports it. The
  events are collected in the order in which they are printed.
\<close>

fun Query_loop :: "(nat \<Rightarrow> bool) \<Rightarrow> Row list \<Rightarrow> QueryResult \<Rightarrow> QueryResult" where
  "Query_loop fails [] res =
     (if fails (ops (qr_db res))
      then res\<lparr>qr_err := Some RowsFailed, qr_db := next_op (qr_db res)\<rparr>
      else res\<lparr>qr_db := next_op (qr_db res)\<rparr>)"
| "Query_loop fails (r # rows) res =
     (if fails (ops (qr_db res))
      then res\<lparr>qr_err := Some RowsFailed, qr_db := next_op (qr_db res)\<rparr>
      else case scan_row r of
             None \<Rightarrow> res\<lparr>qr_err := Some CorruptTimestamp, qr_db := next_op (qr_db res)\<rparr>
           | Some event \<Rightarrow>
               Query_loop fails rows
                 (res\<lparr>qr_count := Suc (qr_count res),
                      qr_events := qr_events res @ [event],
                      qr_db := next_op (qr_db res)\<rparr>))"

text \<open>
  \<^verbatim>\<open>func (es *EventStore) Query(userID int64, filters QueryFilters) (int, error)\<close>.
  The lines printed are \<open>map String\<close> of the events of the result.
\<close>

definition Query :: "(nat \<Rightarrow> bool) \<Rightarrow> 64 word \<Rightarrow> QueryFilters \<Rightarrow> DB \<Rightarrow> QueryResult" where
  "Query fails userID filters db =
     (case Validate filters of
        Some e \<Rightarrow>
          \<lparr>qr_count = 0, qr_err = Some (InvalidFilters e), qr_events = [], qr_db = db\<rparr>
      | None \<Rightarrow>
          (case db_Query fails (where_conditions userID filters) db of
             (None, db1) \<Rightarrow>
               \<lparr>qr_count = 0, qr_err = Some QueryFailed, qr_events = [], qr_db = db1\<rparr>
           | (Some rows, db1) \<Rightarrow>
               Query_loop fails rows
                 \<lparr>qr_count = 0, qr_err = None, qr_events = [], qr_db = db1\<rparr>))"

definition Query_output :: "QueryResult \<Rightarrow> string list" where
  "Query_output res = map String (qr_events res)"

section \<open>Example data\<close>

text \<open>No storage operation fails.\<close>

definition no_faults :: "nat \<Rightarrow> bool" where
  "no_faults n = False"

text \<open>The empty database, before anything was recorded.\<close>

definition empty_DB :: DB where
  "empty_DB = \<lparr>batches = [], txs = [], ops = 0\<rparr>"

definition no_filters :: QueryFilters where
  "no_filters = \<lparr>qf_EventType = [], From = zero_Time, To = zero_Time\<rparr>"

text \<open>Three events of user 42, of which the first happened before year 1.\<close>

definition sample_rows :: "Row list" where
  "sample_rows =
     [\<lparr>row_user_id = 42, row_timestamp = ''0000-06-01T00:00:00Z'',
       row_event_type = ''signup'', row_payload = ''{}''\<rparr>,
      \<lparr>row_user_id = 7, row_timestamp = ''2023-08-14T10:30:00Z'',
       row_event_type = ''login'', row_payload = ''{}''\<rparr>,
      \<lparr>row_user_id = 42, row_timestamp = ''2023-08-14T12:00:00+05:00'',
       row_event_type = ''login'', row_payload = ''null''\<rparr>,
      \<lparr>row_user_id = 42, row_timestamp = ''2023-08-14T10:00:00Z'',
       row_event_type = ''logout'', row_payload = ''{}''\<rparr>]"

definition sample_DB :: DB where
  "sample_DB = \<lparr>batches = [sample_rows], txs = [TxDone], ops = 6\<rparr>"

definition time_10 :: Time where
  "time_10 =
     \<lparr>Year = 2023, Month = 8, Day = 14, Hour = 10, Minute = 0, Second = 0, Nanosecond = 0,
      Offset = 0\<rparr>"

definition time_11 :: Time where
  "time_11 =
     \<lparr>Year = 2023, Month = 8, Day = 14, Hour = 11, Minute = 0, Second = 0, Nanosecond = 0,
      Offset = 0\<rparr>"

text \<open>The instant of the zero time, read on a clock one hour east of UTC.\<close>

definition zero_east :: Time where
  "zero_east =
     \<lparr>Year = 1, Month = 1, Day = 1, Hour = 1, Minute = 0, Second = 0, Nanosecond = 0,
      Offset = 3600\<rparr>"

text \<open>Exactly the storage operation number \<open>k\<close> fails.\<close>

definition fault_at :: "nat \<Rightarrow> nat \<Rightarrow> bool" where
  "fault_at k n = (n = k)"

definition line_login :: string where
  "line_login = ''2023-08-14T10:00:00Z | 42 | login | {\"ip\":\"10.0.0.1\"}''"

definition line_logout :: string where
  "line_logout = ''2023-08-14T11:30:00+02:00 | 42 | logout | {\"duration\":12}''"

definition event_login :: Event where
  "event_login =
     \<lparr>Timestamp = time_10, UserID = 42, EventType = ''login'',
      Payload = ''{\"ip\":\"10.0.0.1\"}''\<rparr>"

text \<open>A file of the given lines that is read to its end.\<close>

definition file_of :: "string list \<Rightarrow> Input option" where
  "file_of ls = Some \<lparr>in_lines = ls, in_read_error = False\<rparr>"

text \<open>Short lines: two that decode, and two of three fields that do not.\<close>

definition line_a :: string where
  "line_a = ''2023-08-14T10:00:00Z | 42 | login | {}''"

definition line_b :: string where
  "line_b = ''2023-08-14T10:05:00Z | 42 | logout | 1''"

definition short_a :: string where
  "short_a = ''2023-08-14T10:00:00Z | 42 | login''"

definition short_b :: string where
  "short_b = ''2023-08-14T10:05:00Z | 43 | logout''"

text \<open>A line of a space and a tab.\<close>

definition blank_line :: string where
  "blank_line = [CHR '' '', CHR 0x09]"

text \<open>The state in which the loop of \<^verbatim>\<open>Record\<close> starts on the empty database.\<close>

definition loop_start :: LoopState where
  "loop_start =
     \<lparr>ls_tx = 0, ls_count = 0, ls_batchSize = 0, ls_out = [],
      ls_db = \<lparr>batches = [], txs = [TxOpen []], ops = 1\<rparr>\<rparr>"

text \<open>
  The rows of \<open>line_a\<close> and \<open>line_b\<close>, and the state in which the loop returns when, with
  threshold 2 and the lines \<open>line_a\<close>, \<open>line_b\<close>, \<open>line_a\<close>, \<open>line_b\<close>, the fourth insert
  fails: one batch is committed and the third record is pending in the second
  transaction.
\<close>

definition row_a :: Row where
  "row_a =
     \<lparr>row_user_id = 42, row_timestamp = ''2023-08-14T10:00:00Z'',
      row_event_type = ''login'', row_payload = ''{}''\<rparr>"

definition row_b :: Row where
  "row_b =
     \<lparr>row_user_id = 42, row_timestamp = ''2023-08-14T10:05:00Z'',
      row_event_type = ''logout'', row_payload = ''1''\<rparr>"

definition state_at_fault :: LoopState where
  "state_at_fault =
     \<lparr>ls_tx = 1, ls_count = 3, ls_batchSize = 1, ls_out = [Processed 2],
      ls_db = \<lparr>batches = [[row_a, row_b]], txs = [TxDone, TxOpen [row_a]], ops = 7\<rparr>\<rparr>"

text \<open>A line whose user id is written with leading zeros.\<close>

definition line_007 :: string where
  "line_007 = ''2023-08-14T10:00:00Z | 007 | login | {}''"




section \<open>What a run of the ingestion is expected to record\<close>

text \<open>
  The events that a list of lines decodes to, in order: empty lines and lines that fail
  to decode contribute nothing.
\<close>

fun decoded :: "string list \<Rightarrow> Event list" where
  "decoded [] = []"
| "decoded (line # rest) =
     (if line = [] then decoded rest
      else case ParseEvent line of
             Inl e \<Rightarrow> decoded rest
           | Inr event \<Rightarrow> event # decoded rest)"

text \<open>The decode errors of the lines that are not empty, in order.\<close>

fun rejected :: "string list \<Rightarrow> decode_error list" where
  "rejected [] = []"
| "rejected (line # rest) =
     (if line = [] then rejected rest
      else case ParseEvent line of
             Inl e \<Rightarrow> e # rejected rest
           | Inr event \<Rightarrow> rejected rest)"

text \<open>The warnings among the messages printed.\<close>

fun warnings :: "record_output list \<Rightarrow> decode_error list" where
  "warnings [] = []"
| "warnings (Warning e # out) = e # warnings out"
| "warnings (Processed n # out) = warnings out"

text \<open>Transaction \<open>tx\<close> is open and holds the rows \<open>p\<close>.\<close>

definition tx_open :: "DB \<Rightarrow> nat \<Rightarrow> Row list \<Rightarrow> bool" where
  "tx_open db tx p = (tx < length (txs db) \<and> txs db ! tx = TxOpen p)"

text \<open>
  The loop started in state \<open>st\<close> with \<open>p\<close> pending in its transaction and ran to the
  end of the input in state \<open>st'\<close>, having inserted \<open>rows\<close>: the batches committed on
  the way are full, and together with what is pending they are what was pending before
  and the rows inserted.
\<close>

definition loop_done :: "nat \<Rightarrow> LoopState \<Rightarrow> Row list \<Rightarrow> Row list \<Rightarrow> LoopState \<Rightarrow> bool" where
  "loop_done B st p rows st' =
     (\<exists>nb p'. batches (ls_db st') = batches (ls_db st) @ nb
        \<and> list_all (\<lambda>b. length b = B) nb
        \<and> concat nb @ p' = p @ rows
        \<and> tx_open (ls_db st') (ls_tx st') p'
        \<and> length p' = ls_batchSize st' \<and> ls_batchSize st' < B
        \<and> ls_count st' = ls_count st + length rows)"

text \<open>
  The loop returned early in state \<open>st'\<close>: \<open>n\<close> of the rows were inserted, the batches
  committed are full, and at most one batch was in flight.
\<close>

definition loop_aborted :: "nat \<Rightarrow> LoopState \<Rightarrow> Row list \<Rightarrow> Row list \<Rightarrow> LoopState \<Rightarrow> bool" where
  "loop_aborted B st p rows st' =
     (\<exists>nb q n. batches (ls_db st') = batches (ls_db st) @ nb
        \<and> list_all (\<lambda>b. length b = B) nb
        \<and> concat nb @ q = p @ take n rows
        \<and> n \<le> length rows \<and> length q \<le> B
        \<and> ls_count st' = ls_count st + n)"

text \<open>What the loop guarantees, whichever way it ends; a \<^verbatim>\<open>return\<close> from inside it
  happens only when a storage operation failed.\<close>

definition loop_post ::
  "(nat \<Rightarrow> bool) \<Rightarrow> nat \<Rightarrow> LoopState \<Rightarrow> Row list \<Rightarrow> Row list
     \<Rightarrow> (record_error \<times> LoopState) + LoopState \<Rightarrow> bool" where
  "loop_post fails B st p rows res =
     (case res of
        Inr st' \<Rightarrow> loop_done B st p rows st'
      | Inl (e, st') \<Rightarrow> loop_aborted B st p rows st' \<and> (\<exists>i. fails i))"

text \<open>The result of a run that reports no error.\<close>

definition run_completed :: "nat \<Rightarrow> DB \<Rightarrow> Row list \<Rightarrow> RecordResult \<Rightarrow> bool" where
  "run_completed B db rows r =
     (\<exists>nb p'. batches (rr_db r) = batches db @ nb @ [p']
        \<and> list_all (\<lambda>b. length b = B) nb \<and> length p' < B
        \<and> concat nb @ p' = rows \<and> rr_count r = length rows)"

text \<open>The result of a run that reports an error.\<close>

definition run_failed :: "nat \<Rightarrow> DB \<Rightarrow> Row list \<Rightarrow> RecordResult \<Rightarrow> bool" where
  "run_failed B db rows r =
     (\<exists>nb q. batches (rr_db r) = batches db @ nb
        \<and> list_all (\<lambda>b. length b = B) nb \<and> length q \<le> B
        \<and> concat nb @ q = take (rr_count r) rows \<and> rr_count r \<le> length rows)"




text \<open>A timestamp text in the form that \<^verbatim>\<open>Format\<close> emits for the time it parses to.\<close>

definition canonical_timestamp :: "string \<Rightarrow> bool" where
  "canonical_timestamp s =
     (case Parse_RFC3339 s of None \<Rightarrow> False | Some t \<Rightarrow> Format_RFC3339 t = s)"

text \<open>A user id text in the form that \<^verbatim>\<open>%d\<close> emits for the number it parses to.\<close>

definition canonical_user_id :: "string \<Rightarrow> bool" where
  "canonical_user_id s =
     (case ParseInt s of None \<Rightarrow> False | Some i \<Rightarrow> FormatInt i = s)"

text \<open>
  How a \<^verbatim>\<open>return\<close> from inside the loop leaves things: of the rows to insert the first
  \<open>n\<close> were inserted; they are the batches committed and the rows \<open>q\<close> of the batch in
  flight. When an insert failed, \<open>q\<close> is what the current transaction holds; when the
  commit of a batch failed, \<open>q\<close> is that full batch; when the next transaction could not
  be begun, nothing is in flight.
\<close>

definition abort_state ::
  "nat \<Rightarrow> LoopState \<Rightarrow> Row list \<Rightarrow> Row list \<Rightarrow> record_error \<Rightarrow> LoopState \<Rightarrow> bool" where
  "abort_state B st p rows e st' =
     (\<exists>nb q n. batches (ls_db st') = batches (ls_db st) @ nb
        \<and> list_all (\<lambda>b. length b = B) nb
        \<and> concat nb @ q = p @ take n rows \<and> n \<le> length rows
        \<and> ls_count st' = ls_count st + n
        \<and> (e = InsertFailed \<and> tx_open (ls_db st') (ls_tx st') q \<and> length q < B
               \<and> n < length rows
           \<or> e = CommitBatchFailed \<and> length q = B
           \<or> e = BeginNewFailed \<and> q = [] \<and> nb \<noteq> []))"

section \<open>Facts about the query loop\<close>

lemma IsZero_zero_Time: "IsZero zero_Time"
  by (simp add: IsZero_def zero_Time_def abs_seconds_def day_number_def days_before_year_def
      daysBefore_def isLeap_def)

lemma Query_loop_nofail:
  assumes "\<And>n. \<not> fails n" and "\<And>r. r \<in> set rows \<Longrightarrow> scan_row r \<noteq> None"
  shows "qr_err (Query_loop fails rows res) = qr_err res
    \<and> qr_count (Query_loop fails rows res) = qr_count res + length rows
    \<and> map Some (qr_events (Query_loop fails rows res))
        = map Some (qr_events res) @ map scan_row rows"
  using assms(2)
proof (induction rows arbitrary: res)
  case Nil
  then show ?case by (simp add: assms(1))
next
  case (Cons r rows)
  from Cons.prems obtain ev where ev: "scan_row r = Some ev"
    by force
  have "\<And>x. x \<in> set rows \<Longrightarrow> scan_row x \<noteq> None"
    using Cons.prems by simp
  from Cons.IH [OF this] show ?case
    by (simp add: assms(1) ev)
qed

lemma Query_loop_prefix:
  "\<exists>k. k \<le> length rows
     \<and> qr_count (Query_loop fails rows res) = qr_count res + k
     \<and> map Some (qr_events (Query_loop fails rows res))
        = map Some (qr_events res) @ map scan_row (take k rows)"
proof (induction rows arbitrary: res)
  case Nil
  then show ?case by simp
next
  case (Cons r rows)
  show ?case
  proof (cases "fails (ops (qr_db res))")
    case True
    then show ?thesis by (intro exI [of _ 0]) simp
  next
    case False
    show ?thesis
    proof (cases "scan_row r")
      case None
      with False show ?thesis by (intro exI [of _ 0]) simp
    next
      case (Some ev)
      let ?res = "res\<lparr>qr_count := Suc (qr_count res), qr_events := qr_events res @ [ev],
                      qr_db := next_op (qr_db res)\<rparr>"
      from Cons.IH [of ?res] obtain k where k: "k \<le> length rows"
        "qr_count (Query_loop fails rows ?res) = qr_count ?res + k"
        "map Some (qr_events (Query_loop fails rows ?res))
          = map Some (qr_events ?res) @ map scan_row (take k rows)"
        by blast
      with False Some show ?thesis
        by (intro exI [of _ "Suc k"]) simp
    qed
  qed
qed

lemma matches_where_conditions:
  "matches (where_conditions uid f) r =
     (row_user_id r = uid
      \<and> (qf_EventType f = [] \<or> row_event_type r = qf_EventType f)
      \<and> (IsZero (From f) \<or> Format_RFC3339 (From f) \<le> row_timestamp r)
      \<and> (IsZero (To f) \<or> row_timestamp r \<le> Format_RFC3339 (To f)))"
  by (simp add: matches_def where_conditions_def)

section \<open>Facts about the ingestion loop\<close>

lemma Exec_fails:
  "fails (ops db) \<Longrightarrow> tx_Exec fails tx r db = (False, db\<lparr>ops := Suc (ops db)\<rparr>)"
  by (simp add: tx_Exec_def)

lemma Exec_ok:
  assumes "tx_open db tx p" and "\<not> fails (ops db)"
  shows "tx_Exec fails tx r db
      = (True, db\<lparr>txs := (txs db)[tx := TxOpen (p @ [r])], ops := Suc (ops db)\<rparr>)"
  using assms by (simp add: tx_Exec_def tx_open_def)

lemma Commit_fails:
  assumes "tx_open db tx p" and "fails (ops db)"
  shows "tx_Commit fails tx db
      = (False, db\<lparr>txs := (txs db)[tx := TxDone], ops := Suc (ops db)\<rparr>)"
  using assms by (simp add: tx_Commit_def tx_open_def)

lemma Commit_ok:
  assumes "tx_open db tx p" and "\<not> fails (ops db)"
  shows "tx_Commit fails tx db
      = (True, db\<lparr>batches := batches db @ [p], txs := (txs db)[tx := TxDone],
                    ops := Suc (ops db)\<rparr>)"
  using assms by (simp add: tx_Commit_def tx_open_def)

lemma Begin_fails:
  "fails (ops db) \<Longrightarrow> db_Begin fails db = (None, db\<lparr>ops := Suc (ops db)\<rparr>)"
  by (simp add: db_Begin_def)

lemma Begin_ok:
  "\<not> fails (ops db) \<Longrightarrow> db_Begin fails db
      = (Some (length (txs db)), db\<lparr>txs := txs db @ [TxOpen []], ops := Suc (ops db)\<rparr>)"
  by (simp add: db_Begin_def)

lemma tx_open_after_Exec:
  "tx_open db tx p \<Longrightarrow>
     tx_open (db\<lparr>txs := (txs db)[tx := TxOpen q], ops := n\<rparr>) tx q"
  by (simp add: tx_open_def)

lemma tx_open_after_Begin:
  "tx_open (db\<lparr>txs := txs db @ [TxOpen []], ops := n\<rparr>) (length (txs db)) []"
  by (simp add: tx_open_def)

lemma loop_done_insert:
  assumes "loop_done B st1 (p @ [r]) rows st'"
    and "batches (ls_db st1) = batches (ls_db st)"
    and "ls_count st1 = Suc (ls_count st)"
  shows "loop_done B st p (r # rows) st'"
  using assms unfolding loop_done_def by auto

lemma loop_aborted_insert:
  assumes "loop_aborted B st1 (p @ [r]) rows st'"
    and "batches (ls_db st1) = batches (ls_db st)"
    and "ls_count st1 = Suc (ls_count st)"
  shows "loop_aborted B st p (r # rows) st'"
proof -
  from assms obtain nb q n where h: "batches (ls_db st') = batches (ls_db st) @ nb"
    "list_all (\<lambda>b. length b = B) nb" "concat nb @ q = (p @ [r]) @ take n rows"
    "n \<le> length rows" "length q \<le> B" "ls_count st' = Suc (ls_count st) + n"
    unfolding loop_aborted_def by auto
  show ?thesis
    unfolding loop_aborted_def
    using h by (intro exI [of _ nb] exI [of _ q] exI [of _ "Suc n"]) simp
qed

lemma loop_done_commit:
  assumes "loop_done B st3 [] rows st'"
    and "batches (ls_db st3) = batches (ls_db st) @ [p @ [r]]"
    and "length (p @ [r]) = B"
    and "ls_count st3 = Suc (ls_count st)"
  shows "loop_done B st p (r # rows) st'"
proof -
  from assms(1) obtain nb p' where h: "batches (ls_db st') = batches (ls_db st3) @ nb"
    "list_all (\<lambda>b. length b = B) nb" "concat nb @ p' = rows"
    "tx_open (ls_db st') (ls_tx st') p'" "length p' = ls_batchSize st'"
    "ls_batchSize st' < B" "ls_count st' = ls_count st3 + length rows"
    unfolding loop_done_def by auto
  show ?thesis
    unfolding loop_done_def
    using h assms(2-4) by (intro exI [of _ "(p @ [r]) # nb"] exI [of _ p']) simp
qed

lemma loop_aborted_commit:
  assumes "loop_aborted B st3 [] rows st'"
    and "batches (ls_db st3) = batches (ls_db st) @ [p @ [r]]"
    and "length (p @ [r]) = B"
    and "ls_count st3 = Suc (ls_count st)"
  shows "loop_aborted B st p (r # rows) st'"
proof -
  from assms(1) obtain nb q n where h: "batches (ls_db st') = batches (ls_db st3) @ nb"
    "list_all (\<lambda>b. length b = B) nb" "concat nb @ q = take n rows"
    "n \<le> length rows" "length q \<le> B" "ls_count st' = ls_count st3 + n"
    unfolding loop_aborted_def by auto
  show ?thesis
    unfolding loop_aborted_def
    using h assms(2-4) by (intro exI [of _ "(p @ [r]) # nb"] exI [of _ q] exI [of _ "Suc n"]) simp
qed

lemma loop_done_cong:
  "batches (ls_db st2) = batches (ls_db st) \<Longrightarrow> ls_count st2 = ls_count st \<Longrightarrow>
     loop_done B st2 p rows st' = loop_done B st p rows st'"
  by (simp add: loop_done_def)

lemma loop_aborted_cong:
  "batches (ls_db st2) = batches (ls_db st) \<Longrightarrow> ls_count st2 = ls_count st \<Longrightarrow>
     loop_aborted B st2 p rows st' = loop_aborted B st p rows st'"
  by (simp add: loop_aborted_def)

lemma loop_post_cong:
  "batches (ls_db st2) = batches (ls_db st) \<Longrightarrow> ls_count st2 = ls_count st \<Longrightarrow>
     loop_post fails B st2 p rows res = loop_post fails B st p rows res"
  by (simp add: loop_post_def loop_done_cong [of st2 st] loop_aborted_cong [of st2 st]
      split: sum.splits prod.splits)

lemma Record_loop_inv:
  assumes "tx_open (ls_db st) (ls_tx st) p" and "length p = ls_batchSize st"
    and "ls_batchSize st < B"
  shows "loop_post fails B st p (map row_of (decoded ls)) (Record_loop fails B ls st)"
  using assms
proof (induction ls arbitrary: st p)
  case Nil
  then show ?case
    by (simp add: loop_post_def loop_done_def)
next
  case (Cons line rest)
  let ?db = "ls_db st"
  show ?case
  proof (cases "line = []")
    case True
    with Cons.IH [OF Cons.prems] show ?thesis by simp
  next
    case nonempty: False
    show ?thesis
    proof (cases "ParseEvent line")
      case (Inl e)
      let ?st2 = "st\<lparr>ls_out := ls_out st @ [Warning e]\<rparr>"
      have "loop_post fails B ?st2 p (map row_of (decoded rest)) (Record_loop fails B rest ?st2)"
        using Cons.prems by (intro Cons.IH) simp_all
      then have "loop_post fails B st p (map row_of (decoded rest)) (Record_loop fails B rest ?st2)"
        by (simp add: loop_post_cong [of ?st2 st])
      with nonempty Inl show ?thesis by simp
    next
      case (Inr ev)
      let ?r = "row_of ev"
      let ?rows = "map row_of (decoded rest)"
      have dec: "map row_of (decoded (line # rest)) = ?r # ?rows"
        using nonempty Inr by simp
      show ?thesis
      proof (cases "fails (ops ?db)")
        case True
        have eq: "Record_loop fails B (line # rest) st
            = Inl (InsertFailed, st\<lparr>ls_db := ?db\<lparr>ops := Suc (ops ?db)\<rparr>\<rparr>)"
          using nonempty Inr True by (simp add: Exec_fails)
        have ab: "loop_aborted B st p (?r # ?rows) (st\<lparr>ls_db := ?db\<lparr>ops := Suc (ops ?db)\<rparr>\<rparr>)"
          unfolding loop_aborted_def
          using Cons.prems by (intro exI [of _ "[]"] exI [of _ p] exI [of _ 0]) simp
        show ?thesis
          unfolding eq dec loop_post_def using ab True by auto
      next
        case exec_ok: False
        let ?db1 = "?db\<lparr>txs := (txs ?db)[ls_tx st := TxOpen (p @ [?r])], ops := Suc (ops ?db)\<rparr>"
        let ?st1 = "st\<lparr>ls_count := Suc (ls_count st), ls_batchSize := Suc (ls_batchSize st),
                       ls_db := ?db1\<rparr>"
        have ex: "tx_Exec fails (ls_tx st) ?r ?db = (True, ?db1)"
          using Cons.prems(1) exec_ok by (rule Exec_ok)
        have open1: "tx_open ?db1 (ls_tx st) (p @ [?r])"
          using Cons.prems(1) by (rule tx_open_after_Exec)
        show ?thesis
        proof (cases "B \<le> Suc (ls_batchSize st)")
          case False
          have step: "Record_loop fails B (line # rest) st = Record_loop fails B rest ?st1"
            using nonempty Inr ex False by (simp add: Let_def)
          have "loop_post fails B ?st1 (p @ [?r]) ?rows (Record_loop fails B rest ?st1)"
            using open1 Cons.prems False by (intro Cons.IH) simp_all
          then show ?thesis
            unfolding step dec loop_post_def
            by (auto split: sum.splits intro!: loop_done_insert [where ?st1.0 = ?st1]
                loop_aborted_insert [where ?st1.0 = ?st1])
        next
          case full: True
          with Cons.prems have len: "length (p @ [?r]) = B" by simp
          show ?thesis
          proof (cases "fails (ops ?db1)")
            case True
            let ?db2 = "?db1\<lparr>txs := (txs ?db1)[ls_tx st := TxDone], ops := Suc (ops ?db1)\<rparr>"
            have cm: "tx_Commit fails (ls_tx st) ?db1 = (False, ?db2)"
              using open1 True by (rule Commit_fails)
            have eq: "Record_loop fails B (line # rest) st
                = Inl (CommitBatchFailed, ?st1\<lparr>ls_db := ?db2\<rparr>)"
              using nonempty Inr ex full cm by (simp add: Let_def)
            have ab: "loop_aborted B st p (?r # ?rows) (?st1\<lparr>ls_db := ?db2\<rparr>)"
              unfolding loop_aborted_def
              using len by (intro exI [of _ "[]"] exI [of _ "p @ [?r]"] exI [of _ 1]) simp
            show ?thesis
              unfolding eq dec loop_post_def using ab True by auto
          next
            case commit_ok: False
            let ?db2 = "?db1\<lparr>batches := batches ?db1 @ [p @ [?r]],
                             txs := (txs ?db1)[ls_tx st := TxDone], ops := Suc (ops ?db1)\<rparr>"
            let ?st2 = "?st1\<lparr>ls_out := ls_out ?st1 @ [Processed (ls_count ?st1)], ls_db := ?db2\<rparr>"
            have cm: "tx_Commit fails (ls_tx st) ?db1 = (True, ?db2)"
              using open1 commit_ok by (rule Commit_ok)
            show ?thesis
            proof (cases "fails (ops ?db2)")
              case True
              let ?db3 = "?db2\<lparr>ops := Suc (ops ?db2)\<rparr>"
              have bg: "db_Begin fails ?db2 = (None, ?db3)"
                using True by (rule Begin_fails)
              have eq: "Record_loop fails B (line # rest) st
                  = Inl (BeginNewFailed, ?st2\<lparr>ls_db := ?db3\<rparr>)"
                using nonempty Inr ex full cm bg by (simp add: Let_def)
              have ab: "loop_aborted B st p (?r # ?rows) (?st2\<lparr>ls_db := ?db3\<rparr>)"
                unfolding loop_aborted_def
                using len by (intro exI [of _ "[p @ [?r]]"] exI [of _ "[]"] exI [of _ 1]) simp
              show ?thesis
                unfolding eq dec loop_post_def using ab True by auto
            next
              case begin_ok: False
              let ?db3 = "?db2\<lparr>txs := txs ?db2 @ [TxOpen []], ops := Suc (ops ?db2)\<rparr>"
              let ?st3 = "?st2\<lparr>ls_tx := length (txs ?db2), ls_batchSize := 0, ls_db := ?db3\<rparr>"
              have bg: "db_Begin fails ?db2 = (Some (length (txs ?db2)), ?db3)"
                using begin_ok by (rule Begin_ok)
              have step: "Record_loop fails B (line # rest) st = Record_loop fails B rest ?st3"
                using nonempty Inr ex full cm bg by (simp add: Let_def)
              have open3: "tx_open (ls_db ?st3) (ls_tx ?st3) []"
                using tx_open_after_Begin [where db = ?db2 and n = "Suc (ops ?db2)"] by simp
              have "0 < B" using Cons.prems by simp
              with open3 have "loop_post fails B ?st3 [] ?rows (Record_loop fails B rest ?st3)"
                by (intro Cons.IH) simp_all
              then show ?thesis
                unfolding step dec loop_post_def
                using len
                by (auto split: sum.splits intro!: loop_done_commit [where ?st3.0 = ?st3]
                    loop_aborted_commit [where ?st3.0 = ?st3])
            qed
          qed
        qed
      qed
    qed
  qed
qed

lemma batches_Rollback [simp]: "batches (tx_Rollback tx db) = batches db"
  by (simp add: tx_Rollback_def split: tx_state.splits)

lemma length_concat_full:
  "list_all (\<lambda>b. length b = B) nb \<Longrightarrow> length (concat nb) = B * length nb"
  by (induction nb) simp_all

lemma Record_with_cases:
  assumes "0 < B"
  shows "(rr_err (Record_with B fails (Some inp) db) = None
            \<and> run_completed B db (map row_of (decoded (in_lines inp)))
                 (Record_with B fails (Some inp) db))
         \<or> (rr_err (Record_with B fails (Some inp) db) \<noteq> None
            \<and> ((\<exists>i. fails i) \<or> in_read_error inp)
            \<and> run_failed B db (map row_of (decoded (in_lines inp)))
                 (Record_with B fails (Some inp) db))"
proof (cases "fails (ops db)")
  case True
  then have "Record_with B fails (Some inp) db
      = \<lparr>rr_count = 0, rr_err = Some BeginFailed, rr_out = [],
         rr_db = db\<lparr>ops := Suc (ops db)\<rparr>\<rparr>"
    by (simp add: Record_with_def Begin_fails)
  moreover have "run_failed B db (map row_of (decoded (in_lines inp)))
      \<lparr>rr_count = 0, rr_err = Some BeginFailed, rr_out = [], rr_db = db\<lparr>ops := Suc (ops db)\<rparr>\<rparr>"
    unfolding run_failed_def by (intro exI [of _ "[]"]) simp
  ultimately show ?thesis
    using True by auto
next
  case False
  let ?rows = "map row_of (decoded (in_lines inp))"
  let ?tx0 = "length (txs db)"
  let ?db0 = "db\<lparr>txs := txs db @ [TxOpen []], ops := Suc (ops db)\<rparr>"
  let ?st0 = "\<lparr>ls_tx = ?tx0, ls_count = 0, ls_batchSize = 0, ls_out = [], ls_db = ?db0\<rparr>"
  have open0: "tx_open (ls_db ?st0) (ls_tx ?st0) []"
    using tx_open_after_Begin [where db = db and n = "Suc (ops db)"] by simp
  have post: "loop_post fails B ?st0 [] ?rows (Record_loop fails B (in_lines inp) ?st0)"
    using open0 assms by (intro Record_loop_inv) simp_all
  show ?thesis
  proof (cases "Record_loop fails B (in_lines inp) ?st0")
    case (Inl a)
    obtain e st' where a: "a = (e, st')" by (cases a)
    have r: "Record_with B fails (Some inp) db
        = \<lparr>rr_count = ls_count st', rr_err = Some e, rr_out = ls_out st',
           rr_db = tx_Rollback ?tx0 (ls_db st')\<rparr>"
      using False Inl a by (simp add: Record_with_def Begin_ok)
    from post Inl a have ab: "loop_aborted B ?st0 [] ?rows st'" and f: "\<exists>i. fails i"
      by (simp_all add: loop_post_def)
    from ab obtain nb q n where h: "batches (ls_db st') = batches db @ nb"
      "list_all (\<lambda>b. length b = B) nb" "concat nb @ q = take n ?rows"
      "n \<le> length ?rows" "length q \<le> B" "ls_count st' = n"
      unfolding loop_aborted_def by auto
    have "run_failed B db ?rows (Record_with B fails (Some inp) db)"
      unfolding run_failed_def r
      using h by (intro exI [of _ nb] exI [of _ q]) simp
    then show ?thesis
      using f by (simp add: r)
  next
    case (Inr st')
    from post Inr have "loop_done B ?st0 [] ?rows st'"
      by (simp add: loop_post_def)
    then obtain nb p' where h: "batches (ls_db st') = batches db @ nb"
      "list_all (\<lambda>b. length b = B) nb" "concat nb @ p' = ?rows"
      "tx_open (ls_db st') (ls_tx st') p'" "length p' = ls_batchSize st'"
      "ls_batchSize st' < B" "ls_count st' = length ?rows"
      unfolding loop_done_def by auto
    show ?thesis
    proof (cases "in_read_error inp")
      case True
      have r: "Record_with B fails (Some inp) db
          = \<lparr>rr_count = ls_count st', rr_err = Some ReadFailed, rr_out = ls_out st',
             rr_db = tx_Rollback ?tx0 (ls_db st')\<rparr>"
        using False Inr True by (simp add: Record_with_def Begin_ok)
      have "run_failed B db ?rows (Record_with B fails (Some inp) db)"
        unfolding run_failed_def r
        using h by (intro exI [of _ nb] exI [of _ p']) simp
      then show ?thesis
        using True by (simp add: r)
    next
      case no_read_error: False
      show ?thesis
      proof (cases "fails (ops (ls_db st'))")
        case True
        let ?db1 = "(ls_db st')\<lparr>txs := (txs (ls_db st'))[ls_tx st' := TxDone],
                                ops := Suc (ops (ls_db st'))\<rparr>"
        have cm: "tx_Commit fails (ls_tx st') (ls_db st') = (False, ?db1)"
          using h(4) True by (rule Commit_fails)
        have r: "Record_with B fails (Some inp) db
            = \<lparr>rr_count = ls_count st', rr_err = Some CommitFinalFailed, rr_out = ls_out st',
               rr_db = tx_Rollback ?tx0 ?db1\<rparr>"
          using False Inr no_read_error cm by (simp add: Record_with_def Begin_ok)
        have "run_failed B db ?rows (Record_with B fails (Some inp) db)"
          unfolding run_failed_def r
          using h by (intro exI [of _ nb] exI [of _ p']) simp
        then show ?thesis
          using True by (auto simp: r)
      next
        case commit_ok: False
        let ?db1 = "(ls_db st')\<lparr>batches := batches (ls_db st') @ [p'],
                                txs := (txs (ls_db st'))[ls_tx st' := TxDone],
                                ops := Suc (ops (ls_db st'))\<rparr>"
        have cm: "tx_Commit fails (ls_tx st') (ls_db st') = (True, ?db1)"
          using h(4) commit_ok by (rule Commit_ok)
        have r: "Record_with B fails (Some inp) db
            = \<lparr>rr_count = ls_count st', rr_err = None, rr_out = ls_out st',
               rr_db = tx_Rollback ?tx0 ?db1\<rparr>"
          using False Inr no_read_error cm by (simp add: Record_with_def Begin_ok)
        have "run_completed B db ?rows (Record_with B fails (Some inp) db)"
          unfolding run_completed_def r
          using h by (intro exI [of _ nb] exI [of _ p']) simp
        then show ?thesis
          by (simp add: r)
      qed
    qed
  qed
qed

section \<open>What a run of the ingestion leaves behind\<close>

lemma ParseEvent_line_login: "ParseEvent line_login = Inr event_login"
  by code_simp

lemma decoded_eq:
  "decoded ls
     = map (\<lambda>l. projr (ParseEvent l))
         (filter (\<lambda>l. \<not> isl (ParseEvent l)) (filter (\<lambda>l. l \<noteq> []) ls))"
  by (induction ls) (auto split: sum.splits)

lemma rejected_eq:
  "rejected ls
     = map (\<lambda>l. projl (ParseEvent l))
         (filter (\<lambda>l. isl (ParseEvent l)) (filter (\<lambda>l. l \<noteq> []) ls))"
  by (induction ls) (auto split: sum.splits)

lemma length_decoded:
  "length (decoded ls) + length (filter (\<lambda>l. isl (ParseEvent l)) (filter (\<lambda>l. l \<noteq> []) ls))
     = length (filter (\<lambda>l. l \<noteq> []) ls)"
  by (induction ls) (auto split: sum.splits)

lemma decoded_replicate:
  "line \<noteq> [] \<Longrightarrow> ParseEvent line = Inr ev \<Longrightarrow> decoded (replicate n line) = replicate n ev"
  by (induction n) simp_all

lemma warnings_append [simp]: "warnings (xs @ ys) = warnings xs @ warnings ys"
  by (induction xs rule: warnings.induct) simp_all

lemma Record_loop_warnings:
  "Record_loop fails B ls st = Inr st' \<Longrightarrow>
     warnings (ls_out st') = warnings (ls_out st) @ rejected ls"
proof (induction ls arbitrary: st)
  case Nil
  then show ?case by simp
next
  case (Cons line rest)
  show ?case
  proof (cases "line = []")
    case True
    with Cons show ?thesis by simp
  next
    case False
    show ?thesis
    proof (cases "ParseEvent line")
      case (Inl e)
      with False Cons.prems
      have "Record_loop fails B rest (st\<lparr>ls_out := ls_out st @ [Warning e]\<rparr>) = Inr st'"
        by simp
      from Cons.IH [OF this] False Inl show ?thesis by simp
    next
      case (Inr ev)
      from Cons.prems False Inr obtain st2 where
        "Record_loop fails B rest st2 = Inr st'" "warnings (ls_out st2) = warnings (ls_out st)"
        by (auto simp: Let_def split: prod.splits bool.splits option.splits if_splits)
      with Cons.IH [of st2] False Inr show ?thesis by simp
    qed
  qed
qed

lemma Record_with_warnings:
  assumes "rr_err (Record_with B fails (Some inp) db) = None"
  shows "warnings (rr_out (Record_with B fails (Some inp) db)) = rejected (in_lines inp)"
proof -
  from assms obtain tx0 db0 st' where
    "Record_loop fails B (in_lines inp)
       \<lparr>ls_tx = tx0, ls_count = 0, ls_batchSize = 0, ls_out = [], ls_db = db0\<rparr> = Inr st'"
    "rr_out (Record_with B fails (Some inp) db) = ls_out st'"
    by (auto simp: Record_with_def split: prod.splits option.splits sum.splits if_splits bool.splits)
  with Record_loop_warnings [OF this(1)] show ?thesis by simp
qed

lemma Record_with_nofail:
  assumes "0 < B" and "\<And>i. \<not> fails i" and "\<not> in_read_error inp"
  shows "rr_err (Record_with B fails (Some inp) db) = None"
  using Record_with_cases [OF assms(1), of fails inp db] assms(2,3) by auto

lemma Record_with_completed:
  assumes "0 < B" and "rr_err (Record_with B fails (Some inp) db) = None"
  shows "run_completed B db (map row_of (decoded (in_lines inp)))
           (Record_with B fails (Some inp) db)"
  using Record_with_cases [OF assms(1), of fails inp db] assms(2) by auto

lemma Record_with_failed:
  assumes "0 < B" and "rr_err (Record_with B fails (Some inp) db) \<noteq> None"
  shows "run_failed B db (map row_of (decoded (in_lines inp)))
           (Record_with B fails (Some inp) db)"
  using Record_with_cases [OF assms(1), of fails inp db] assms(2) by auto

lemma run_completed_facts:
  assumes "0 < B" and "run_completed B db rows r"
  shows "length (batches (rr_db r)) = length (batches db) + length rows div B + 1"
    and "persisted (rr_db r) = persisted db @ rows"
    and "rr_count r = length rows"
    and "prefix (batches db) (batches (rr_db r))"
proof -
  from assms(2) obtain nb p' where h: "batches (rr_db r) = batches db @ nb @ [p']"
    "list_all (\<lambda>b. length b = B) nb" "length p' < B" "concat nb @ p' = rows"
    "rr_count r = length rows"
    unfolding run_completed_def by auto
  from h(4) have "length rows = length (concat nb) + length p'"
    by (metis length_append)
  with length_concat_full [OF h(2)] have "length rows = B * length nb + length p'"
    by simp
  with h(3) have "length rows div B = length nb"
    by simp
  with h(1) show "length (batches (rr_db r)) = length (batches db) + length rows div B + 1"
    by simp
  from h(1,4) show "persisted (rr_db r) = persisted db @ rows"
    by (simp add: persisted_def)
  from h(5) show "rr_count r = length rows" .
  from h(1) show "prefix (batches db) (batches (rr_db r))"
    by simp
qed

lemma run_failed_facts:
  assumes "run_failed B db rows r"
  defines "k \<equiv> length (batches (rr_db r)) - length (batches db)"
  shows "persisted (rr_db r) = persisted db @ take (k * B) rows"
    and "k * B \<le> rr_count r" and "rr_count r \<le> k * B + B" and "rr_count r \<le> length rows"
    and "prefix (batches db) (batches (rr_db r))"
proof -
  from assms(1) obtain nb q where h: "batches (rr_db r) = batches db @ nb"
    "list_all (\<lambda>b. length b = B) nb" "length q \<le> B"
    "concat nb @ q = take (rr_count r) rows" "rr_count r \<le> length rows"
    unfolding run_failed_def by auto
  from h(1) have k: "k = length nb"
    by (simp add: k_def)
  have len: "length (concat nb) = k * B"
    using length_concat_full [OF h(2)] k by (simp add: mult.commute)
  from h(4) have "length (concat nb) + length q = length (take (rr_count r) rows)"
    by (metis length_append)
  with h(5) len have cnt: "k * B + length q = rr_count r"
    by simp
  from cnt show "k * B \<le> rr_count r" by simp
  from cnt h(3) show "rr_count r \<le> k * B + B" by simp
  from h(5) show "rr_count r \<le> length rows" .
  from h(4) have "concat nb = take (k * B) (take (rr_count r) rows)"
    using len by (metis append_eq_conv_conj)
  also have "\<dots> = take (k * B) rows"
    using \<open>k * B \<le> rr_count r\<close> by (simp add: min_def)
  finally show "persisted (rr_db r) = persisted db @ take (k * B) rows"
    using h(1) by (simp add: persisted_def)
  from h(1) show "prefix (batches db) (batches (rr_db r))"
    by simp
qed

lemma ceiling_div:
  assumes "0 < (B::nat)"
  shows "N div B + 1 = (N + B - 1) div B + (if B dvd N then 1 else 0)"
proof -
  define q r where "q = N div B" and "r = N mod B"
  have N: "N = r + q * B"
    by (simp add: q_def r_def)
  have rB: "r < B"
    using assms by (simp add: r_def)
  have dvd: "B dvd N \<longleftrightarrow> r = 0"
    by (simp add: r_def dvd_eq_mod_eq_0)
  have qd: "N div B = q"
    by (simp add: q_def)
  have B0: "B \<noteq> 0"
    using assms by simp
  show ?thesis
  proof (cases "r = 0")
    case True
    with N assms have e: "N + B - 1 = (B - 1) + q * B"
      by simp
    have "((B - 1) + q * B) div B = q + (B - 1) div B"
      using B0 by (rule div_mult_self1)
    moreover have "(B - 1) div B = 0"
      using assms by simp
    ultimately have "(N + B - 1) div B = q"
      unfolding e by simp
    then show ?thesis
      using True dvd qd by simp
  next
    case False
    with N have e: "N + B - 1 = (r - 1) + (q + 1) * B"
      by simp
    have "((r - 1) + (q + 1) * B) div B = (q + 1) + (r - 1) div B"
      using B0 by (rule div_mult_self1)
    moreover have "(r - 1) div B = 0"
      using rB by simp
    ultimately have "(N + B - 1) div B = q + 1"
      unfolding e by simp
    then show ?thesis
      using False dvd qd by simp
  qed
qed

section \<open>The count when the ingestion fails\<close>

lemma abort_state_insert:
  assumes "abort_state B st1 (p @ [r]) rows e st'"
    and "batches (ls_db st1) = batches (ls_db st)"
    and "ls_count st1 = Suc (ls_count st)"
  shows "abort_state B st p (r # rows) e st'"
proof -
  from assms(1) obtain nb q n where h: "batches (ls_db st') = batches (ls_db st1) @ nb"
    "list_all (\<lambda>b. length b = B) nb" "concat nb @ q = (p @ [r]) @ take n rows"
    "n \<le> length rows" "ls_count st' = ls_count st1 + n"
    "e = InsertFailed \<and> tx_open (ls_db st') (ls_tx st') q \<and> length q < B \<and> n < length rows
       \<or> e = CommitBatchFailed \<and> length q = B
       \<or> e = BeginNewFailed \<and> q = [] \<and> nb \<noteq> []"
    unfolding abort_state_def by blast
  from h(6) have k: "e = InsertFailed \<and> tx_open (ls_db st') (ls_tx st') q \<and> length q < B
         \<and> Suc n < length (r # rows)
       \<or> e = CommitBatchFailed \<and> length q = B
       \<or> e = BeginNewFailed \<and> q = [] \<and> nb \<noteq> []"
    by auto
  show ?thesis
    unfolding abort_state_def
    apply (rule exI [of _ nb], rule exI [of _ q], rule exI [of _ "Suc n"])
    using h(1-5) k assms(2,3) by simp
qed

lemma abort_state_commit:
  assumes "abort_state B st3 [] rows e st'"
    and "batches (ls_db st3) = batches (ls_db st) @ [p @ [r]]"
    and "length (p @ [r]) = B"
    and "ls_count st3 = Suc (ls_count st)"
  shows "abort_state B st p (r # rows) e st'"
proof -
  from assms(1) obtain nb q n where h: "batches (ls_db st') = batches (ls_db st3) @ nb"
    "list_all (\<lambda>b. length b = B) nb" "concat nb @ q = take n rows"
    "n \<le> length rows" "ls_count st' = ls_count st3 + n"
    "e = InsertFailed \<and> tx_open (ls_db st') (ls_tx st') q \<and> length q < B \<and> n < length rows
       \<or> e = CommitBatchFailed \<and> length q = B
       \<or> e = BeginNewFailed \<and> q = [] \<and> nb \<noteq> []"
    unfolding abort_state_def by auto
  from h(6) have k: "e = InsertFailed \<and> tx_open (ls_db st') (ls_tx st') q \<and> length q < B
         \<and> Suc n < length (r # rows)
       \<or> e = CommitBatchFailed \<and> length q = B
       \<or> e = BeginNewFailed \<and> q = [] \<and> (p @ [r]) # nb \<noteq> []"
    by auto
  show ?thesis
    unfolding abort_state_def
    apply (rule exI [of _ "(p @ [r]) # nb"], rule exI [of _ q], rule exI [of _ "Suc n"])
    using h(1-5) k assms(2-4) by simp
qed

lemma abort_state_cong:
  "batches (ls_db st2) = batches (ls_db st) \<Longrightarrow> ls_count st2 = ls_count st \<Longrightarrow>
     abort_state B st2 p rows e st' = abort_state B st p rows e st'"
  by (simp add: abort_state_def)


lemma Record_loop_abort:
  assumes "tx_open (ls_db st) (ls_tx st) p" and "length p = ls_batchSize st"
    and "ls_batchSize st < B"
    and "Record_loop fails B ls st = Inl (e, st')"
  shows "abort_state B st p (map row_of (decoded ls)) e st'"
  using assms
proof (induction ls arbitrary: st p)
  case Nil
  then show ?case by simp
next
  case (Cons line rest)
  let ?db = "ls_db st"
  note inv = Cons.prems(1-3)
  note res = Cons.prems(4)
  show ?case
  proof (cases "line = []")
    case True
    with res have "Record_loop fails B rest st = Inl (e, st')" by simp
    from Cons.IH [OF inv this] True show ?thesis by simp
  next
    case nonempty: False
    show ?thesis
    proof (cases "ParseEvent line")
      case (Inl er)
      let ?st2 = "st\<lparr>ls_out := ls_out st @ [Warning er]\<rparr>"
      from res nonempty Inl have r2: "Record_loop fails B rest ?st2 = Inl (e, st')"
        by simp
      have "abort_state B ?st2 p (map row_of (decoded rest)) e st'"
        using inv by (intro Cons.IH [OF _ _ _ r2]) simp_all
      then have "abort_state B st p (map row_of (decoded rest)) e st'"
        by (simp add: abort_state_cong [of ?st2 st])
      with nonempty Inl show ?thesis by simp
    next
      case (Inr ev)
      let ?r = "row_of ev"
      let ?rows = "map row_of (decoded rest)"
      have dec: "map row_of (decoded (line # rest)) = ?r # ?rows"
        using nonempty Inr by simp
      show ?thesis
      proof (cases "fails (ops ?db)")
        case True
        have eq: "Record_loop fails B (line # rest) st
            = Inl (InsertFailed, st\<lparr>ls_db := ?db\<lparr>ops := Suc (ops ?db)\<rparr>\<rparr>)"
          using nonempty Inr True by (simp add: Exec_fails)
        with res have e: "e = InsertFailed" and st': "st' = st\<lparr>ls_db := ?db\<lparr>ops := Suc (ops ?db)\<rparr>\<rparr>"
          by simp_all
        have "tx_open (ls_db st') (ls_tx st') p"
          using inv(1) by (simp add: st' tx_open_def)
        then show ?thesis
          unfolding dec abort_state_def
          apply (rule_tac x = "[]" in exI, rule_tac x = p in exI, rule_tac x = 0 in exI)
          using inv e by (simp add: st')
      next
        case exec_ok: False
        let ?db1 = "?db\<lparr>txs := (txs ?db)[ls_tx st := TxOpen (p @ [?r])], ops := Suc (ops ?db)\<rparr>"
        let ?st1 = "st\<lparr>ls_count := Suc (ls_count st), ls_batchSize := Suc (ls_batchSize st),
                       ls_db := ?db1\<rparr>"
        have ex: "tx_Exec fails (ls_tx st) ?r ?db = (True, ?db1)"
          using inv(1) exec_ok by (rule Exec_ok)
        have open1: "tx_open ?db1 (ls_tx st) (p @ [?r])"
          using inv(1) by (rule tx_open_after_Exec)
        show ?thesis
        proof (cases "B \<le> Suc (ls_batchSize st)")
          case False
          have step: "Record_loop fails B (line # rest) st = Record_loop fails B rest ?st1"
            using nonempty Inr ex False by (simp add: Let_def)
          with res have r1: "Record_loop fails B rest ?st1 = Inl (e, st')" by simp
          have "abort_state B ?st1 (p @ [?r]) ?rows e st'"
            using open1 inv False by (intro Cons.IH [OF _ _ _ r1]) simp_all
          then show ?thesis
            unfolding dec by (rule abort_state_insert) simp_all
        next
          case full: True
          with inv have len: "length (p @ [?r]) = B" by simp
          show ?thesis
          proof (cases "fails (ops ?db1)")
            case True
            let ?db2 = "?db1\<lparr>txs := (txs ?db1)[ls_tx st := TxDone], ops := Suc (ops ?db1)\<rparr>"
            have cm: "tx_Commit fails (ls_tx st) ?db1 = (False, ?db2)"
              using open1 True by (rule Commit_fails)
            have eq: "Record_loop fails B (line # rest) st
                = Inl (CommitBatchFailed, ?st1\<lparr>ls_db := ?db2\<rparr>)"
              using nonempty Inr ex full cm by (simp add: Let_def)
            with res have e: "e = CommitBatchFailed" and st': "st' = ?st1\<lparr>ls_db := ?db2\<rparr>"
              by simp_all
            show ?thesis
              unfolding dec abort_state_def
              apply (rule_tac x = "[]" in exI, rule_tac x = "p @ [?r]" in exI, rule_tac x = 1 in exI)
              using len e by (simp add: st')
          next
            case commit_ok: False
            let ?db2 = "?db1\<lparr>batches := batches ?db1 @ [p @ [?r]],
                             txs := (txs ?db1)[ls_tx st := TxDone], ops := Suc (ops ?db1)\<rparr>"
            let ?st2 = "?st1\<lparr>ls_out := ls_out ?st1 @ [Processed (ls_count ?st1)], ls_db := ?db2\<rparr>"
            have cm: "tx_Commit fails (ls_tx st) ?db1 = (True, ?db2)"
              using open1 commit_ok by (rule Commit_ok)
            show ?thesis
            proof (cases "fails (ops ?db2)")
              case True
              let ?db3 = "?db2\<lparr>ops := Suc (ops ?db2)\<rparr>"
              have bg: "db_Begin fails ?db2 = (None, ?db3)"
                using True by (rule Begin_fails)
              have eq: "Record_loop fails B (line # rest) st
                  = Inl (BeginNewFailed, ?st2\<lparr>ls_db := ?db3\<rparr>)"
                using nonempty Inr ex full cm bg by (simp add: Let_def)
              with res have e: "e = BeginNewFailed" and st': "st' = ?st2\<lparr>ls_db := ?db3\<rparr>"
                by simp_all
              show ?thesis
                unfolding dec abort_state_def
                apply (rule_tac x = "[p @ [?r]]" in exI, rule_tac x = "[]" in exI, rule_tac x = 1 in exI)
                using len e by (simp add: st')
            next
              case begin_ok: False
              let ?db3 = "?db2\<lparr>txs := txs ?db2 @ [TxOpen []], ops := Suc (ops ?db2)\<rparr>"
              let ?st3 = "?st2\<lparr>ls_tx := length (txs ?db2), ls_batchSize := 0, ls_db := ?db3\<rparr>"
              have bg: "db_Begin fails ?db2 = (Some (length (txs ?db2)), ?db3)"
                using begin_ok by (rule Begin_ok)
              have step: "Record_loop fails B (line # rest) st = Record_loop fails B rest ?st3"
                using nonempty Inr ex full cm bg by (simp add: Let_def)
              with res have r3: "Record_loop fails B rest ?st3 = Inl (e, st')" by simp
              have open3: "tx_open (ls_db ?st3) (ls_tx ?st3) []"
                using tx_open_after_Begin [where db = ?db2 and n = "Suc (ops ?db2)"] by simp
              have "0 < B" using inv by simp
              with open3 have "abort_state B ?st3 [] ?rows e st'"
                by (intro Cons.IH [OF _ _ _ r3]) simp_all
              then show ?thesis
                unfolding dec by (rule abort_state_commit) (use len in simp_all)
            qed
          qed
        qed
      qed
    qed
  qed
qed


lemma Begin_Some:
  assumes "db_Begin fails db = (Some tx0, db0)"
  shows "\<not> fails (ops db)" and "tx0 = length (txs db)"
    and "db0 = db\<lparr>txs := txs db @ [TxOpen []], ops := Suc (ops db)\<rparr>"
  using assms by (auto simp: db_Begin_def split: if_splits)

lemma Record_with_insert_failed:
  assumes "0 < B" and "db_Begin fails db = (Some tx0, db0)"
    and "Record_loop fails B (in_lines inp)
           \<lparr>ls_tx = tx0, ls_count = 0, ls_batchSize = 0, ls_out = [], ls_db = db0\<rparr>
         = Inl (InsertFailed, st')"
  shows "rr_err (Record_with B fails (Some inp) db) = Some InsertFailed"
    and "rr_count (Record_with B fails (Some inp) db) = ls_count st'"
    and "\<exists>q. tx_open (ls_db st') (ls_tx st') q
           \<and> persisted (ls_db st') @ q
               = persisted db @ take (ls_count st') (map row_of (decoded (in_lines inp)))"
proof -
  let ?st0 = "\<lparr>ls_tx = tx0, ls_count = 0, ls_batchSize = 0, ls_out = [], ls_db = db0\<rparr>"
  let ?rows = "map row_of (decoded (in_lines inp))"
  show "rr_err (Record_with B fails (Some inp) db) = Some InsertFailed"
    and "rr_count (Record_with B fails (Some inp) db) = ls_count st'"
    using assms(2,3) by (simp_all add: Record_with_def)
  note b = Begin_Some [OF assms(2)]
  have open0: "tx_open (ls_db ?st0) (ls_tx ?st0) []"
    using tx_open_after_Begin [where db = db and n = "Suc (ops db)"] b(2,3) by simp
  have "abort_state B ?st0 [] ?rows InsertFailed st'"
    using open0 assms(1) by (intro Record_loop_abort [OF _ _ _ assms(3)]) simp_all
  then obtain nb q n where h: "batches (ls_db st') = batches db0 @ nb"
    "concat nb @ q = take n ?rows" "ls_count st' = n" "tx_open (ls_db st') (ls_tx st') q"
    unfolding abort_state_def by auto
  have "batches db0 = batches db"
    using b(3) by simp
  with h(1,2,3) have "persisted (ls_db st') @ q = persisted db @ take (ls_count st') ?rows"
    by (simp add: persisted_def)
  with h(4) show "\<exists>q. tx_open (ls_db st') (ls_tx st') q
      \<and> persisted (ls_db st') @ q = persisted db @ take (ls_count st') ?rows"
    by blast
qed

text \<open>The count that comes with each kind of error; \<open>k\<close> transactions were committed.\<close>

lemma Record_with_error_kinds:
  assumes "0 < B" and "rr_err (Record_with B fails (Some inp) db) = Some e"
  defines "k \<equiv> length (batches (rr_db (Record_with B fails (Some inp) db))) - length (batches db)"
    and "c \<equiv> rr_count (Record_with B fails (Some inp) db)"
    and "N \<equiv> length (decoded (in_lines inp))"
  shows "e = BeginFailed \<Longrightarrow> c = 0"
    and "e = InsertFailed \<Longrightarrow> c < N \<and> c < k * B + B"
    and "e = CommitBatchFailed \<Longrightarrow> c = k * B + B"
    and "e = BeginNewFailed \<Longrightarrow> c = k * B \<and> 0 < k"
    and "e = ReadFailed \<or> e = CommitFinalFailed \<Longrightarrow> c = N"
proof -
  let ?r = "Record_with B fails (Some inp) db"
  let ?rows = "map row_of (decoded (in_lines inp))"
  have all: "(e = BeginFailed \<longrightarrow> c = 0)
      \<and> (e = InsertFailed \<longrightarrow> c < N \<and> c < k * B + B)
      \<and> (e = CommitBatchFailed \<longrightarrow> c = k * B + B)
      \<and> (e = BeginNewFailed \<longrightarrow> c = k * B \<and> 0 < k)
      \<and> (e = ReadFailed \<or> e = CommitFinalFailed \<longrightarrow> c = N)"
  proof (cases "fails (ops db)")
    case True
    then have "?r = \<lparr>rr_count = 0, rr_err = Some BeginFailed, rr_out = [],
        rr_db = db\<lparr>ops := Suc (ops db)\<rparr>\<rparr>"
      by (simp add: Record_with_def Begin_fails)
    with assms(2) show ?thesis
      by (auto simp: c_def)
  next
    case False
    let ?tx0 = "length (txs db)"
    let ?db0 = "db\<lparr>txs := txs db @ [TxOpen []], ops := Suc (ops db)\<rparr>"
    let ?st0 = "\<lparr>ls_tx = ?tx0, ls_count = 0, ls_batchSize = 0, ls_out = [], ls_db = ?db0\<rparr>"
    have open0: "tx_open (ls_db ?st0) (ls_tx ?st0) []"
      using tx_open_after_Begin [where db = db and n = "Suc (ops db)"] by simp
    show ?thesis
    proof (cases "Record_loop fails B (in_lines inp) ?st0")
      case (Inl a)
      obtain e' st' where a: "a = (e', st')" by (cases a)
      have r: "?r = \<lparr>rr_count = ls_count st', rr_err = Some e', rr_out = ls_out st',
          rr_db = tx_Rollback ?tx0 (ls_db st')\<rparr>"
        using False Inl a by (simp add: Record_with_def Begin_ok)
      with assms(2) have e: "e' = e" by simp
      have "abort_state B ?st0 [] ?rows e st'"
        using open0 assms(1) Inl a e by (intro Record_loop_abort) simp_all
      then obtain nb q n where h: "batches (ls_db st') = batches db @ nb"
        "list_all (\<lambda>b. length b = B) nb" "concat nb @ q = take n ?rows" "n \<le> length ?rows"
        "ls_count st' = n"
        "e = InsertFailed \<and> length q < B \<and> n < length ?rows
          \<or> e = CommitBatchFailed \<and> length q = B
          \<or> e = BeginNewFailed \<and> q = [] \<and> nb \<noteq> []"
        unfolding abort_state_def by auto
      have kk: "k = length nb"
        using h(1) by (simp add: k_def r)
      have cc: "c = n"
        using h(5) by (simp add: c_def r)
      from h(3) have "length (concat nb) + length q = length (take n ?rows)"
        by (metis length_append)
      with h(4) length_concat_full [OF h(2)] kk have "k * B + length q = n"
        by (simp add: mult.commute)
      with h(6) cc show ?thesis
        by (auto simp: N_def kk)
    next
      case (Inr st')
      have "loop_post fails B ?st0 [] ?rows (Record_loop fails B (in_lines inp) ?st0)"
        using open0 assms(1) by (intro Record_loop_inv) simp_all
      with Inr have "loop_done B ?st0 [] ?rows st'"
        by (simp add: loop_post_def)
      then have n: "ls_count st' = length ?rows"
        by (auto simp: loop_done_def)
      have "rr_count ?r = ls_count st' \<and> (e = ReadFailed \<or> e = CommitFinalFailed)"
        using False Inr assms(2)
        by (auto simp: Record_with_def Begin_ok split: if_splits prod.splits bool.splits)
      with n show ?thesis
        by (auto simp: c_def N_def)
    qed
  qed
  from all show "e = BeginFailed \<Longrightarrow> c = 0"
    and "e = InsertFailed \<Longrightarrow> c < N \<and> c < k * B + B"
    and "e = CommitBatchFailed \<Longrightarrow> c = k * B + B"
    and "e = BeginNewFailed \<Longrightarrow> c = k * B \<and> 0 < k"
    and "e = ReadFailed \<or> e = CommitFinalFailed \<Longrightarrow> c = N"
    by blast+
qed

section \<open>Facts about trimming and splitting\<close>

lemma leading_space_prefix:
  assumes "leading_space rs s = Some n"
  shows "\<exists>r \<in> set rs. s = r @ drop n s \<and> n = length r"
proof -
  from assms obtain r where r: "find (\<lambda>r. prefix r s) rs = Some r" "n = length r"
    by (auto simp: leading_space_def)
  then have "r \<in> set rs" and "prefix r s"
    by (auto simp: find_Some_iff)
  then obtain t where "s = r @ t"
    by (auto simp: prefix_def)
  with r(2) \<open>r \<in> set rs\<close> show ?thesis
    by auto
qed

lemma trim_runes_bytes:
  "set s \<subseteq> (\<Union>r \<in> set rs. set r) \<union> set (trim_runes rs s)"
proof (induction rs s rule: trim_runes.induct)
  case (1 rs s)
  show ?case
  proof (cases "[] \<in> set rs")
    case True
    then show ?thesis by (simp add: trim_runes.simps)
  next
    case False
    show ?thesis
    proof (cases "leading_space rs s")
      case None
      with False show ?thesis by (simp add: trim_runes.simps)
    next
      case (Some n)
      from leading_space_prefix [OF Some] obtain r where r: "r \<in> set rs" "s = r @ drop n s"
        by blast
      have t: "trim_runes rs s = trim_runes rs (drop n s)"
        using False Some by (subst trim_runes.simps) simp
      from r(2) have "set s = set r \<union> set (drop n s)"
        by (metis set_append)
      with r(1) "1.IH" [OF False Some] show ?thesis
        unfolding t by blast
    qed
  qed
qed

lemma TrimSpace_empty_bytes:
  assumes "TrimSpace s = []"
  shows "set s \<subseteq> (\<Union>r \<in> set space_runes. set r)"
proof -
  let ?t = "trim_runes space_runes s"
  from assms have "trim_runes (map rev space_runes) (rev ?t) = []"
    by (simp add: TrimSpace_def)
  with trim_runes_bytes [of "rev ?t" "map rev space_runes"]
  have "set ?t \<subseteq> (\<Union>r \<in> set space_runes. set r)"
    by simp
  with trim_runes_bytes [of s space_runes] show ?thesis
    by blast
qed

lemma pipe_not_space: "CHR ''|'' \<notin> (\<Union>r \<in> set space_runes. set r)"
  by (simp add: space_runes_def)

lemma Index_no_pipe: "CHR ''|'' \<notin> set s \<Longrightarrow> Index s sep = None"
proof (induction s)
  case Nil
  then show ?case by (simp add: sep_def)
next
  case (Cons c cs)
  have "\<not> prefix sep (c # cs)"
  proof
    assume "prefix sep (c # cs)"
    then have "set sep \<subseteq> set (c # cs)"
      by (rule set_mono_prefix)
    moreover have "CHR ''|'' \<in> set sep"
      by (simp add: sep_def)
    ultimately show False
      using Cons.prems by blast
  qed
  with Cons show ?case by simp
qed

lemma Split_no_sep: "Index s sep = None \<Longrightarrow> Split s sep = [s]"
  by (subst Split.simps) (simp add: sep_def)

lemma ParseEvent_blank:
  assumes "TrimSpace line = []"
  shows "ParseEvent line = Inl (MalformedLine 1)"
proof -
  from TrimSpace_empty_bytes [OF assms] pipe_not_space have "CHR ''|'' \<notin> set line"
    by blast
  then have "Split line sep = [line]"
    by (intro Split_no_sep Index_no_pipe)
  then show ?thesis
    by (simp add: ParseEvent_def)
qed

lemma Record_loop_skips_empty:
  "Record_loop fails B (filter (\<lambda>l. l \<noteq> []) ls) st = Record_loop fails B ls st"
proof (induction ls arbitrary: st)
  case Nil
  show ?case by simp
next
  case (Cons line rest)
  show ?case
  proof (cases "line = []")
    case True
    with Cons show ?thesis by simp
  next
    case False
    with Cons show ?thesis
      by (simp add: Let_def cong: sum.case_cong prod.case_cong bool.case_cong option.case_cong
          if_cong)
  qed
qed

section \<open>Facts about splitting and joining\<close>

lemma Index_found:
  "Index s sp = Some m \<Longrightarrow> s = take m s @ sp @ drop (m + length sp) s"
proof (induction s arbitrary: m)
  case Nil
  then show ?case by (simp split: if_splits)
next
  case (Cons c cs)
  show ?case
  proof (cases "prefix sp (c # cs)")
    case True
    with Cons.prems have "m = 0" by simp
    moreover from True obtain t where "c # cs = sp @ t"
      by (auto simp: prefix_def)
    ultimately show ?thesis by simp
  next
    case False
    with Cons.prems obtain k where k: "Index cs sp = Some k" "m = Suc k"
      by auto
    from Cons.IH [OF k(1)] k(2) show ?thesis by simp
  qed
qed

lemma Split_not_Nil: "sp \<noteq> [] \<Longrightarrow> Split s sp \<noteq> []"
  by (subst Split.simps) (simp split: option.splits)

lemma Join_Cons: "ps \<noteq> [] \<Longrightarrow> Join (p # ps) sp = p @ sp @ Join ps sp"
  by (cases ps) simp_all

lemma Join_Split: "sp \<noteq> [] \<Longrightarrow> Join (Split s sp) sp = s"
proof (induction s sp rule: Split.induct)
  case (1 s sp)
  show ?case
  proof (cases "Index s sp")
    case None
    with "1.prems" show ?thesis
      by (subst Split.simps) simp
  next
    case (Some m)
    have "Join (Split s sp) sp
        = take m s @ sp @ Join (Split (drop (m + length sp) s) sp) sp"
      using "1.prems" Some Split_not_Nil [OF "1.prems"]
      by (subst Split.simps) (simp add: Join_Cons)
    also have "\<dots> = take m s @ sp @ drop (m + length sp) s"
      using "1.IH" [OF "1.prems" Some] "1.prems" by simp
    also have "\<dots> = s"
      using Index_found [OF Some] by simp
    finally show ?thesis .
  qed
qed



section \<open>Facts about trimming\<close>

lemma trim_runes_id:
  "leading_space rs s = None \<Longrightarrow> trim_runes rs s = s"
  by (subst trim_runes.simps) simp


lemma space_runes_nonempty: "[] \<notin> set space_runes"
  by (simp add: space_runes_def)


lemma length_trim_runes: "length (trim_runes rs s) \<le> length s"
proof (induction rs s rule: trim_runes.induct)
  case (1 rs s)
  show ?case
  proof (cases "[] \<in> set rs")
    case True
    then show ?thesis by (simp add: trim_runes.simps)
  next
    case False
    show ?thesis
    proof (cases "leading_space rs s")
      case None
      with False show ?thesis by (simp add: trim_runes.simps)
    next
      case (Some n)
      have "trim_runes rs s = trim_runes rs (drop n s)"
        using False Some by (subst trim_runes.simps) simp
      with "1.IH" [OF False Some] show ?thesis by simp
    qed
  qed
qed

lemma trim_runes_fixed:
  assumes "trim_runes rs s = s" and "[] \<notin> set rs"
  shows "leading_space rs s = None"
proof (cases "leading_space rs s")
  case None
  then show ?thesis .
next
  case (Some n)
  have "trim_runes rs s = trim_runes rs (drop n s)"
    using assms(2) Some by (subst trim_runes.simps) simp
  with assms(1) length_trim_runes [of rs "drop n s"] have "length s \<le> length s - n"
    by simp
  moreover from leading_space_pos [OF Some assms(2)] have "0 < n" "n \<le> length s" .
  ultimately show ?thesis by arith
qed

lemma TrimSpace_fixed:
  assumes "TrimSpace s = s"
  shows "leading_space space_runes s = None"
    and "leading_space (map rev space_runes) (rev s) = None"
proof -
  let ?t = "trim_runes space_runes s"
  let ?u = "trim_runes (map rev space_runes) (rev ?t)"
  from assms have u: "?u = rev s"
    by (simp add: TrimSpace_def rev_swap)
  have "length s = length ?u"
    using u by simp
  also have "\<dots> \<le> length ?t"
    using length_trim_runes [of "map rev space_runes" "rev ?t"] by simp
  finally have len: "length s \<le> length ?t" .
  have t: "?t = s"
  proof (cases "leading_space space_runes s")
    case None
    then show ?thesis by (rule trim_runes_id)
  next
    case (Some n)
    have "?t = trim_runes space_runes (drop n s)"
      using space_runes_nonempty Some by (subst trim_runes.simps) simp
    with len length_trim_runes [of space_runes "drop n s"] have "length s \<le> length s - n"
      by simp
    moreover from leading_space_pos [OF Some space_runes_nonempty] have "0 < n" "n \<le> length s" .
    ultimately show ?thesis by arith
  qed
  then show "leading_space space_runes s = None"
    using space_runes_nonempty by (rule trim_runes_fixed)
  from u t have "trim_runes (map rev space_runes) (rev s) = rev s"
    by simp
  moreover have "[] \<notin> set (map rev space_runes)"
    using space_runes_nonempty by auto
  ultimately show "leading_space (map rev space_runes) (rev s) = None"
    by (rule trim_runes_fixed)
qed

section \<open>Facts about decimal digits\<close>

lemma of_char_digit_chr: "n < 10 \<Longrightarrow> (of_char (digit_chr n) :: nat) = 48 + n"
  by (simp add: digit_chr_def)












lemma ParseInt_range:
  "ParseInt s = Some i \<Longrightarrow> - (2 ^ 63) \<le> i \<and> i < 2 ^ 63"
  by (auto simp: ParseInt_def Let_def split: if_splits)

lemma sint_word_of_ParseInt:
  assumes "ParseInt s = Some i"
  shows "sint (word_of_int i :: 64 word) = i"
proof -
  from ParseInt_range [OF assms] have "- (2 ^ (LENGTH(64) - 1)) \<le> i" "i < 2 ^ (LENGTH(64) - 1)"
    by simp_all
  then have "signed_take_bit (LENGTH(64) - 1) i = i"
    by (rule signed_take_bit_int_eq_self)
  then show ?thesis
    by (simp only: sint_sbintrunc')
qed


lemma digit_chr_not_pipe: "n < 10 \<Longrightarrow> digit_chr n \<noteq> CHR ''|''"
  using of_char_digit_chr [of n] by (auto simp del: of_char_eq_iff)



section \<open>Facts about the payload\<close>

lemma json_space_rune: "json_isSpace c \<Longrightarrow> [c] \<in> set space_runes"
  by (auto simp: json_isSpace_def space_runes_def)

lemma leading_space_not_json:
  assumes "leading_space space_runes (c # t) = None"
  shows "\<not> json_isSpace c"
proof
  assume "json_isSpace c"
  then have "[c] \<in> set space_runes" by (rule json_space_rune)
  moreover have "prefix [c] (c # t)" by simp
  ultimately have "find (\<lambda>r. prefix r (c # t)) space_runes \<noteq> None"
    by (auto simp: find_None_iff)
  with assms show False
    by (simp add: leading_space_def)
qed

lemma trailing_space_not_json:
  assumes "leading_space (map rev space_runes) (c # t) = None"
  shows "\<not> json_isSpace c"
proof
  assume "json_isSpace c"
  then have "[c] \<in> set space_runes" by (rule json_space_rune)
  then have "[c] \<in> set (map rev space_runes)" by force
  moreover have "prefix [c] (c # t)" by simp
  ultimately have "find (\<lambda>r. prefix r (c # t)) (map rev space_runes) \<noteq> None"
    unfolding find_None_iff by blast
  with assms show False
    by (simp add: leading_space_def)
qed

lemma Unmarshal_trimmed:
  assumes "checkValid d" and "TrimSpace d = d"
  shows "Unmarshal_RawMessage d = Some d"
proof -
  note fixed = TrimSpace_fixed [OF assms(2)]
  have front: "dropWhile json_isSpace d = d"
  proof (cases d)
    case Nil
    then show ?thesis by simp
  next
    case (Cons c t)
    with fixed(1) leading_space_not_json have "\<not> json_isSpace c" by blast
    with Cons show ?thesis by simp
  qed
  have rear: "dropWhile json_isSpace (rev d) = rev d"
  proof (cases "rev d")
    case Nil
    then show ?thesis by simp
  next
    case (Cons c t)
    with fixed(2) trailing_space_not_json have "\<not> json_isSpace c" by metis
    with Cons show ?thesis by simp
  qed
  from assms(1) front rear show ?thesis
    by (simp add: Unmarshal_RawMessage_def)
qed

section \<open>Decoding a canonical line and encoding it again\<close>

lemma String_Join:
  "String e = Join [Format_RFC3339 (Timestamp e), FormatInt (sint (UserID e)), EventType e,
                    Payload e] sep"
  by (simp add: String_def)

section \<open>Facts about the time layout\<close>











lemma digits_of_100: "0 \<le> (x::int) \<Longrightarrow> x < 100 \<Longrightarrow> nat (x div 10) < 10 \<and> nat (x mod 10) < 10"
  by auto





























section \<open>The field count of a line\<close>

text \<open>
  C7. \<^verbatim>\<open>ParseEvent\<close> splits the line at the separator \<open>'' | ''\<close>, and whenever
  the split does not yield exactly four fields the result is the error
  \<open>MalformedLine\<close> with the number of fields found: no event is produced, and the
  result does not depend on what the fields contain, so none of them is validated. In
  particular this holds for lines of three and of five fields.
\<close>

theorem ParseEvent_field_count:
  assumes "length (Split line sep) \<noteq> 4"
  shows "ParseEvent line = Inl (MalformedLine (length (Split line sep)))"
  using assms by (simp add: ParseEvent_def Let_def)

theorem ParseEvent_field_count_witness:
  "length (Split ''2023-08-14T10:00:00Z | 42 | login'' sep) \<noteq> 4
   \<and> ParseEvent ''2023-08-14T10:00:00Z | 42 | login'' = Inl (MalformedLine 3)
   \<and> length (Split ''2023-08-14T10:00:00Z | 42 | login | {} | {}'' sep) \<noteq> 4
   \<and> ParseEvent ''2023-08-14T10:00:00Z | 42 | login | {} | {}'' = Inl (MalformedLine 5)"
proof -
  have three: "Split ''2023-08-14T10:00:00Z | 42 | login'' sep
      = [''2023-08-14T10:00:00Z'', ''42'', ''login'']"
    by code_simp
  have five: "Split ''2023-08-14T10:00:00Z | 42 | login | {} | {}'' sep
      = [''2023-08-14T10:00:00Z'', ''42'', ''login'', ''{}'', ''{}'']"
    by code_simp
  show ?thesis
    using ParseEvent_field_count [of "''2023-08-14T10:00:00Z | 42 | login''"]
      ParseEvent_field_count [of "''2023-08-14T10:00:00Z | 42 | login | {} | {}''"]
    by (simp add: three five)
qed

section \<open>Round trip from a line\<close>

text \<open>
  C1, amended. Let a line split at \<open>'' | ''\<close> into exactly four fields, none of them
  with white space around it: a timestamp that parses and is in the form in which the
  encoder emits the time it parses to, a user id that parses as an int64 and is in the
  form in which the encoder emits that number (no plus sign, no leading zeros, no
  negative zero), an event type that is not empty, and a payload that is valid JSON.
  Then the line decodes, and encoding the event gives back the line byte for byte.
\<close>

theorem encode_decode_line:
  assumes "Split line sep = [ts, uid, et, pl]"
    and "TrimSpace ts = ts" and "TrimSpace uid = uid" and "TrimSpace et = et"
    and "TrimSpace pl = pl"
    and "canonical_timestamp ts" and "canonical_user_id uid"
    and "et \<noteq> []" and "checkValid pl"
  shows "\<exists>e. ParseEvent line = Inr e \<and> String e = line"
proof -
  from assms(6) obtain t where t: "Parse_RFC3339 ts = Some t" "Format_RFC3339 t = ts"
    by (auto simp: canonical_timestamp_def split: option.splits)
  from assms(7) obtain i where i: "ParseInt uid = Some i" "FormatInt i = uid"
    by (auto simp: canonical_user_id_def split: option.splits)
  have pl: "Unmarshal_RawMessage pl = Some pl"
    using assms(9,5) by (rule Unmarshal_trimmed)
  let ?e = "\<lparr>Timestamp = t, UserID = word_of_int i, EventType = et, Payload = pl\<rparr>"
  have dec: "ParseEvent line = Inr ?e"
    using assms(1-5,8) t(1) i(1) pl by (simp add: ParseEvent_def)
  have "String ?e = Join [ts, uid, et, pl] sep"
    using t(2) i(2) sint_word_of_ParseInt [OF i(1)] by (simp add: String_Join)
  also have "\<dots> = Join (Split line sep) sep"
    by (simp only: assms(1))
  also have "\<dots> = line"
    by (rule Join_Split) (simp add: sep_def)
  finally have "String ?e = line" .
  with dec show ?thesis by blast
qed

text \<open>The line of the scenario in the specification.\<close>

theorem encode_decode_line_witness:
  "Split line_login sep = [''2023-08-14T10:00:00Z'', ''42'', ''login'', ''{\"ip\":\"10.0.0.1\"}'']
   \<and> canonical_timestamp ''2023-08-14T10:00:00Z'' \<and> canonical_user_id ''42''
   \<and> checkValid ''{\"ip\":\"10.0.0.1\"}''
   \<and> (\<exists>e. ParseEvent line_login = Inr e \<and> String e = line_login)"
proof -
  have sp: "Split line_login sep
      = [''2023-08-14T10:00:00Z'', ''42'', ''login'', ''{\"ip\":\"10.0.0.1\"}'']"
    by code_simp
  have tr: "TrimSpace ''2023-08-14T10:00:00Z'' = ''2023-08-14T10:00:00Z''"
    "TrimSpace ''42'' = ''42''" "TrimSpace ''login'' = ''login''"
    "TrimSpace ''{\"ip\":\"10.0.0.1\"}'' = ''{\"ip\":\"10.0.0.1\"}''"
    by code_simp+
  have ca: "canonical_timestamp ''2023-08-14T10:00:00Z''" "canonical_user_id ''42''"
    by code_simp+
  have ne: "''login'' \<noteq> []" by simp
  have js: "checkValid ''{\"ip\":\"10.0.0.1\"}''"
    by code_simp
  from encode_decode_line [OF sp tr ca ne js] sp ca js show ?thesis
    by (intro conjI)
qed

text \<open>
  The claim as stated fails on a user id with leading zeros: it is a decimal int64
  without white space around it, and the line comes back with the id rewritten.
\<close>

theorem encode_decode_line_counterexample:
  "Split line_007 sep = [''2023-08-14T10:00:00Z'', ''007'', ''login'', ''{}'']
   \<and> canonical_timestamp ''2023-08-14T10:00:00Z''
   \<and> ParseInt ''007'' = Some 7 \<and> TrimSpace ''007'' = ''007''
   \<and> checkValid ''{}''
   \<and> map_sum id String (ParseEvent line_007) = Inr ''2023-08-14T10:00:00Z | 7 | login | {}''
   \<and> ''2023-08-14T10:00:00Z | 7 | login | {}'' \<noteq> line_007"
  by code_simp

section \<open>Batches and commits\<close>

text \<open>
  C4, amended. Let \<open>B > 0\<close> be the batch threshold and \<open>N\<close> the number of lines
  that decode. The batches committed before the call are kept as they are. A call
  that succeeds commits \<open>N div B + 1\<close> transactions: one for every full batch, and a
  last one for the rest, which is empty when \<open>B\<close> divides \<open>N\<close>; this is
  \<open>\<lceil>N/B\<rceil>\<close> when \<open>B\<close> does not divide \<open>N\<close> and one more when it does. Afterwards
  all \<open>N\<close> records are persisted, in order. A call that fails after \<open>k\<close> commits
  leaves exactly the first \<open>k \<cdot> B\<close> records persisted.
\<close>

theorem Record_commits:
  assumes "0 < B"
  shows "prefix (batches db) (batches (rr_db (Record_with B fails (Some inp) db)))
    \<and> (rr_err (Record_with B fails (Some inp) db) = None \<longrightarrow>
         length (batches (rr_db (Record_with B fails (Some inp) db))) - length (batches db)
           = length (decoded (in_lines inp)) div B + 1
         \<and> length (decoded (in_lines inp)) div B + 1
           = (length (decoded (in_lines inp)) + B - 1) div B
             + (if B dvd length (decoded (in_lines inp)) then 1 else 0)
         \<and> persisted (rr_db (Record_with B fails (Some inp) db))
           = persisted db @ map row_of (decoded (in_lines inp)))
    \<and> (rr_err (Record_with B fails (Some inp) db) \<noteq> None \<longrightarrow>
         persisted (rr_db (Record_with B fails (Some inp) db))
           = persisted db
             @ take ((length (batches (rr_db (Record_with B fails (Some inp) db)))
                        - length (batches db)) * B)
                 (map row_of (decoded (in_lines inp))))"
proof (cases "rr_err (Record_with B fails (Some inp) db) = None")
  case True
  note fin = run_completed_facts [OF assms Record_with_completed [OF assms True]]
  from fin(1) have "length (batches (rr_db (Record_with B fails (Some inp) db)))
      - length (batches db) = length (decoded (in_lines inp)) div B + 1"
    by simp
  with fin(2,4) ceiling_div [OF assms, of "length (decoded (in_lines inp))"] True
  show ?thesis by simp
next
  case False
  note failed = run_failed_facts [OF Record_with_failed [OF assms False]]
  from failed(1,5) False show ?thesis by blast
qed

theorem Record_commits_witness:
  "0 < (2::nat)
   \<and> rr_err (Record_with 2 no_faults (file_of [line_login, line_logout, line_login]) empty_DB)
       = None
   \<and> length (batches (rr_db (Record_with 2 no_faults
         (file_of [line_login, line_logout, line_login]) empty_DB))) - length (batches empty_DB)
       = 3 div 2 + 1
   \<and> rr_err (Record_with 2 (fault_at 5)
         (file_of [line_login, line_logout, line_login]) empty_DB) \<noteq> None
   \<and> persisted (rr_db (Record_with 2 (fault_at 5)
         (file_of [line_login, line_logout, line_login]) empty_DB))
       = persisted empty_DB
         @ take (1 * 2) (map row_of (decoded [line_login, line_logout, line_login]))"
proof -
  define inp where "inp = \<lparr>in_lines = [line_login, line_logout, line_login], in_read_error = False\<rparr>"
  define r1 where "r1 = Record_with 2 no_faults (Some inp) empty_DB"
  define r2 where "r2 = Record_with 2 (fault_at 5) (Some inp) empty_DB"
  have B: "0 < (2::nat)" by simp
  have ok: "rr_err r1 = None"
    unfolding r1_def inp_def by code_simp
  have bad: "rr_err r2 \<noteq> None"
    unfolding r2_def inp_def by code_simp
  have n: "length (decoded (in_lines inp)) = 3"
    unfolding inp_def by code_simp
  have k: "length (batches (rr_db r2)) - length (batches empty_DB) = 1"
    unfolding r2_def inp_def by code_simp
  have l: "in_lines inp = [line_login, line_logout, line_login]"
    by (simp add: inp_def)
  from Record_commits [OF B, of empty_DB no_faults inp] ok
  have c1: "length (batches (rr_db r1)) - length (batches empty_DB)
      = length (decoded (in_lines inp)) div 2 + 1"
    unfolding r1_def by blast
  from Record_commits [OF B, of empty_DB "fault_at 5" inp] bad
  have c2: "persisted (rr_db r2) = persisted empty_DB
      @ take ((length (batches (rr_db r2)) - length (batches empty_DB)) * 2)
          (map row_of (decoded (in_lines inp)))"
    unfolding r2_def by blast
  from c1 n have c1': "length (batches (rr_db r1)) - length (batches empty_DB) = 3 div 2 + 1"
    by simp
  from c2 k l have c2': "persisted (rr_db r2) = persisted empty_DB
      @ take (1 * 2) (map row_of (decoded [line_login, line_logout, line_login]))"
    by simp
  have f: "file_of [line_login, line_logout, line_login] = Some inp"
    by (simp add: file_of_def inp_def)
  show ?thesis
    unfolding f r1_def [symmetric] r2_def [symmetric]
    using B ok c1' bad c2' by (intro conjI)
qed

text \<open>
  The claim as stated fails where the threshold divides the number of lines: a file of
  10000 valid lines is committed in two transactions, not in \<open>\<lceil>10000/10000\<rceil> = 1\<close>.
\<close>

theorem Record_commits_counterexample:
  "rr_err (Record no_faults (file_of (replicate 10000 line_login)) empty_DB) = None
   \<and> length (batches (rr_db (Record no_faults (file_of (replicate 10000 line_login)) empty_DB)))
       = 2
   \<and> (10000 + maxBatchSize - 1) div maxBatchSize = 1"
proof -
  let ?inp = "\<lparr>in_lines = replicate 10000 line_login, in_read_error = False\<rparr>"
  have B: "0 < maxBatchSize" by (simp add: maxBatchSize_def)
  have nf: "\<And>i. \<not> no_faults i" by (simp add: no_faults_def)
  have ok: "rr_err (Record_with maxBatchSize no_faults (Some ?inp) empty_DB) = None"
    using B nf by (rule Record_with_nofail) simp
  have ne: "line_login \<noteq> []" by (simp add: line_login_def)
  have n: "length (decoded (replicate 10000 line_login)) = 10000"
    unfolding decoded_replicate [OF ne ParseEvent_line_login] by (rule length_replicate)
  have d: "(10000::nat) div maxBatchSize + 1 = 2"
    by (simp add: maxBatchSize_def)
  have c: "(10000 + maxBatchSize - 1) div maxBatchSize = 1"
    by (simp add: maxBatchSize_def)
  have e: "length (batches empty_DB) = 0"
    by (simp add: empty_DB_def)
  from run_completed_facts(1) [OF B Record_with_completed [OF B ok]]
  have "length (batches (rr_db (Record_with maxBatchSize no_faults (Some ?inp) empty_DB)))
      = 0 + 10000 div maxBatchSize + 1"
    unfolding e Input.simps length_map n .
  then have "length (batches (rr_db (Record_with maxBatchSize no_faults (Some ?inp) empty_DB))) = 2"
    using d by linarith
  with ok c show ?thesis
    unfolding Record_def file_of_def by (intro conjI)
qed

section \<open>Lines that fail to decode\<close>

text \<open>
  C5, amended. Let \<open>B > 0\<close>, let no storage operation fail and let the file be read to
  its end. Of the \<open>N\<close> lines that are not empty let \<open>M\<close> fail to decode. Then the call
  reports no error, its count is \<open>N - M\<close>, the records persisted are those of the lines
  that decode, in order, and for every line that fails one warning is printed, in
  order, that carries the decode error of the line (and nothing else: neither the line
  nor its number).
\<close>

theorem Record_skips_malformed:
  assumes "0 < B" and "\<forall>i. \<not> fails i" and "\<not> in_read_error inp"
  shows "rr_err (Record_with B fails (Some inp) db) = None
    \<and> rr_count (Record_with B fails (Some inp) db)
        = length (filter (\<lambda>l. l \<noteq> []) (in_lines inp))
          - length (filter (\<lambda>l. isl (ParseEvent l)) (filter (\<lambda>l. l \<noteq> []) (in_lines inp)))
    \<and> persisted (rr_db (Record_with B fails (Some inp) db))
        = persisted db
          @ map (\<lambda>l. row_of (projr (ParseEvent l)))
              (filter (\<lambda>l. \<not> isl (ParseEvent l)) (filter (\<lambda>l. l \<noteq> []) (in_lines inp)))
    \<and> warnings (rr_out (Record_with B fails (Some inp) db))
        = map (\<lambda>l. projl (ParseEvent l))
            (filter (\<lambda>l. isl (ParseEvent l)) (filter (\<lambda>l. l \<noteq> []) (in_lines inp)))"
proof -
  have ok: "rr_err (Record_with B fails (Some inp) db) = None"
    using assms by (intro Record_with_nofail) simp_all
  note fin = run_completed_facts [OF assms(1) Record_with_completed [OF assms(1) ok]]
  have "rr_count (Record_with B fails (Some inp) db) = length (decoded (in_lines inp))"
    using fin(3) by simp
  also have "\<dots> = length (filter (\<lambda>l. l \<noteq> []) (in_lines inp))
      - length (filter (\<lambda>l. isl (ParseEvent l)) (filter (\<lambda>l. l \<noteq> []) (in_lines inp)))"
    using length_decoded [of "in_lines inp"] by linarith
  finally have cnt: "rr_count (Record_with B fails (Some inp) db)
      = length (filter (\<lambda>l. l \<noteq> []) (in_lines inp))
        - length (filter (\<lambda>l. isl (ParseEvent l)) (filter (\<lambda>l. l \<noteq> []) (in_lines inp)))" .
  have rows: "map row_of (decoded (in_lines inp))
      = map (\<lambda>l. row_of (projr (ParseEvent l)))
          (filter (\<lambda>l. \<not> isl (ParseEvent l)) (filter (\<lambda>l. l \<noteq> []) (in_lines inp)))"
    by (simp add: decoded_eq comp_def)
  have pers: "persisted (rr_db (Record_with B fails (Some inp) db))
      = persisted db
        @ map (\<lambda>l. row_of (projr (ParseEvent l)))
            (filter (\<lambda>l. \<not> isl (ParseEvent l)) (filter (\<lambda>l. l \<noteq> []) (in_lines inp)))"
    using fin(2) unfolding rows .
  have warn: "warnings (rr_out (Record_with B fails (Some inp) db))
      = map (\<lambda>l. projl (ParseEvent l))
          (filter (\<lambda>l. isl (ParseEvent l)) (filter (\<lambda>l. l \<noteq> []) (in_lines inp)))"
    using Record_with_warnings [OF ok] by (simp add: rejected_eq)
  from ok cnt pers warn show ?thesis by (intro conjI)
qed


theorem Record_skips_malformed_witness:
  "0 < (2::nat) \<and> (\<forall>i. \<not> no_faults i)
   \<and> rr_err (Record_with 2 no_faults (file_of [line_a, short_a, [], line_b]) empty_DB) = None
   \<and> rr_count (Record_with 2 no_faults (file_of [line_a, short_a, [], line_b]) empty_DB) = 3 - 1
   \<and> warnings (rr_out (Record_with 2 no_faults (file_of [line_a, short_a, [], line_b]) empty_DB))
       = [MalformedLine 3]"
proof -
  define inp where "inp = \<lparr>in_lines = [line_a, short_a, [], line_b], in_read_error = False\<rparr>"
  define r where "r = Record_with 2 no_faults (Some inp) empty_DB"
  have B: "0 < (2::nat)" by simp
  have nf: "\<forall>i. \<not> no_faults i" by (simp add: no_faults_def)
  have re: "\<not> in_read_error inp" by (simp add: inp_def)
  have N: "length (filter (\<lambda>l. l \<noteq> []) (in_lines inp)) = 3"
    by (simp add: inp_def line_a_def line_b_def short_a_def)
  have bad: "filter (\<lambda>l. isl (ParseEvent l)) (filter (\<lambda>l. l \<noteq> []) (in_lines inp)) = [short_a]"
    unfolding inp_def by code_simp
  have e: "projl (ParseEvent short_a) = MalformedLine 3"
    by code_simp
  from Record_skips_malformed [OF B nf re, of empty_DB]
  have "rr_err r = None"
    and "rr_count r = 3 - 1"
    and "warnings (rr_out r) = [MalformedLine 3]"
    unfolding r_def [symmetric] N bad by (simp_all add: e)
  moreover have f: "file_of [line_a, short_a, [], line_b] = Some inp"
    by (simp add: file_of_def inp_def)
  ultimately show ?thesis
    unfolding f r_def [symmetric] using B nf by simp
qed

text \<open>
  The claim as stated fails in that a warning does not identify the line: two different
  lines that fail to decode make \<^verbatim>\<open>Record\<close> print the very same warning.
\<close>

theorem Record_skips_malformed_counterexample:
  "short_a \<noteq> short_b
   \<and> rr_out (Record no_faults (file_of [short_a]) empty_DB) = [Warning (MalformedLine 3)]
   \<and> rr_out (Record no_faults (file_of [short_b]) empty_DB) = [Warning (MalformedLine 3)]"
  by code_simp

section \<open>Round trip from an event\<close>




section \<open>Filter validation\<close>

text \<open>
  C6. \<^verbatim>\<open>Validate\<close> fails with \<open>InvalidRange\<close> if and only if both bounds are
  present (not the zero time) and \<open>From\<close> is strictly after \<open>To\<close>; in every other
  case it succeeds, and so it does on empty filters. When validation fails,
  \<^verbatim>\<open>Query\<close> returns the error with count zero and the database untouched (no
  storage operation was attempted). With empty filters the rows selected are all rows
  of the user, and when no storage operation fails and the stored timestamps parse, all
  of them are yielded.
\<close>

theorem Validate_InvalidRange_iff:
  "(Validate f = Some InvalidRange
      \<longleftrightarrow> \<not> IsZero (From f) \<and> \<not> IsZero (To f) \<and> After (From f) (To f))
   \<and> (Validate f = None
      \<longleftrightarrow> \<not> (\<not> IsZero (From f) \<and> \<not> IsZero (To f) \<and> After (From f) (To f)))
   \<and> (IsEmpty f \<longrightarrow> Validate f = None)
   \<and> (Validate f \<noteq> None \<longrightarrow>
        Query fails uid f db
          = \<lparr>qr_count = 0, qr_err = Some (InvalidFilters InvalidRange), qr_events = [],
             qr_db = db\<rparr>)
   \<and> (IsEmpty f \<longrightarrow>
        filter (matches (where_conditions uid f)) (persisted db)
          = filter (\<lambda>r. row_user_id r = uid) (persisted db))
   \<and> (IsEmpty f \<and> (\<forall>n. \<not> fails n) \<and> (\<forall>r \<in> set (persisted db). scan_row r \<noteq> None) \<longrightarrow>
        qr_err (Query fails uid f db) = None
        \<and> qr_count (Query fails uid f db)
            = length (filter (\<lambda>r. row_user_id r = uid) (persisted db))
        \<and> map Some (qr_events (Query fails uid f db))
            = map scan_row
                (sort_key row_timestamp (filter (\<lambda>r. row_user_id r = uid) (persisted db))))"
proof (intro conjI impI)
  show "Validate f = Some InvalidRange
      \<longleftrightarrow> \<not> IsZero (From f) \<and> \<not> IsZero (To f) \<and> After (From f) (To f)"
    by (simp add: Validate_def)
  show "Validate f = None
      \<longleftrightarrow> \<not> (\<not> IsZero (From f) \<and> \<not> IsZero (To f) \<and> After (From f) (To f))"
    by (simp add: Validate_def)
  show "Validate f = None" if "IsEmpty f"
    using that by (simp add: Validate_def IsEmpty_def)
  show "Query fails uid f db
      = \<lparr>qr_count = 0, qr_err = Some (InvalidFilters InvalidRange), qr_events = [], qr_db = db\<rparr>"
    if "Validate f \<noteq> None"
  proof -
    from that have "Validate f = Some InvalidRange"
      by (simp add: Validate_def split: if_splits)
    then show ?thesis by (simp add: Query_def)
  qed
  show user_only: "filter (matches (where_conditions uid f)) (persisted db)
      = filter (\<lambda>r. row_user_id r = uid) (persisted db)" if "IsEmpty f"
  proof -
    from that have "matches (where_conditions uid f) = (\<lambda>r. row_user_id r = uid)"
      by (intro ext) (simp add: matches_where_conditions IsEmpty_def)
    then show ?thesis by simp
  qed
  assume a: "IsEmpty f \<and> (\<forall>n. \<not> fails n) \<and> (\<forall>r \<in> set (persisted db). scan_row r \<noteq> None)"
  let ?rows = "sort_key row_timestamp (filter (\<lambda>r. row_user_id r = uid) (persisted db))"
  from a have v: "Validate f = None"
    by (simp add: Validate_def IsEmpty_def)
  from a have q: "Query fails uid f db
      = Query_loop fails ?rows \<lparr>qr_count = 0, qr_err = None, qr_events = [], qr_db = next_op db\<rparr>"
    by (simp add: Query_def v db_Query_def user_only next_op_def)
  have nf: "\<And>n. \<not> fails n" using a by simp
  have sc: "\<And>r. r \<in> set ?rows \<Longrightarrow> scan_row r \<noteq> None" using a by simp
  note loop = Query_loop_nofail [of fails ?rows
      "\<lparr>qr_count = 0, qr_err = None, qr_events = [], qr_db = next_op db\<rparr>", OF nf sc, folded q]
  show "qr_err (Query fails uid f db) = None"
    using loop by simp
  show "qr_count (Query fails uid f db)
      = length (filter (\<lambda>r. row_user_id r = uid) (persisted db))"
    using loop by simp
  show "map Some (qr_events (Query fails uid f db)) = map scan_row ?rows"
    using loop by simp
qed

theorem Validate_InvalidRange_iff_witness:
  "Validate \<lparr>qf_EventType = [], From = time_11, To = time_10\<rparr> = Some InvalidRange
   \<and> Query no_faults 42 \<lparr>qf_EventType = [], From = time_11, To = time_10\<rparr> sample_DB
       = \<lparr>qr_count = 0, qr_err = Some (InvalidFilters InvalidRange), qr_events = [],
          qr_db = sample_DB\<rparr>
   \<and> IsEmpty no_filters \<and> Validate no_filters = None
   \<and> qr_err (Query no_faults 42 no_filters sample_DB) = None
   \<and> qr_count (Query no_faults 42 no_filters sample_DB) = 3"
proof -
  let ?bad = "\<lparr>qf_EventType = [], From = time_11, To = time_10\<rparr>"
  have bad: "\<not> IsZero (From ?bad) \<and> \<not> IsZero (To ?bad) \<and> After (From ?bad) (To ?bad)"
    by code_simp
  have empty: "IsEmpty no_filters"
    by code_simp
  have ok: "\<forall>n. \<not> no_faults n"
    by (simp add: no_faults_def)
  have parse: "\<forall>r \<in> set (persisted sample_DB). scan_row r \<noteq> None"
    by code_simp
  have three: "length (filter (\<lambda>r. row_user_id r = 42) (persisted sample_DB)) = 3"
    by code_simp
  from Validate_InvalidRange_iff [of ?bad no_faults 42 sample_DB] bad
  have "Validate ?bad = Some InvalidRange"
    and "Query no_faults 42 ?bad sample_DB
       = \<lparr>qr_count = 0, qr_err = Some (InvalidFilters InvalidRange), qr_events = [],
          qr_db = sample_DB\<rparr>"
    by simp_all
  moreover from Validate_InvalidRange_iff [of no_filters no_faults 42 sample_DB] empty ok parse
  have "Validate no_filters = None"
    and "qr_err (Query no_faults 42 no_filters sample_DB) = None"
    and "qr_count (Query no_faults 42 no_filters sample_DB)
       = length (filter (\<lambda>r. row_user_id r = 42) (persisted sample_DB))"
    by simp_all
  ultimately show ?thesis
    using empty three by simp
qed

section \<open>The count returned with an error\<close>

text \<open>
  C8, amended. Let \<open>B > 0\<close>, let the call return an error, and let \<open>k\<close> be the number of
  transactions it committed and \<open>N\<close> the number of lines that decode. The records
  persisted by the call are the first \<open>k \<cdot> B\<close>. The count returned with the error is the
  number of records whose insert succeeded, those of the batch in flight included:
  \<^item> when an insert fails, the records committed followed by the records pending in the
    transaction that is open at that moment are exactly the first \<open>count\<close> records, and
    fewer than \<open>B\<close> are pending;
  \<^item> when the commit of a full batch fails, the count is \<open>k \<cdot> B + B\<close>: the \<open>B\<close> records of
    the batch that was not committed are counted;
  \<^item> when the next transaction cannot be begun, the count is \<open>k \<cdot> B\<close>;
  \<^item> on a read error, and when the last commit fails, the count is \<open>N\<close>;
  \<^item> when the first transaction cannot be begun, the count is 0.
  In every case the count lies between \<open>k \<cdot> B\<close> and \<open>k \<cdot> B + B\<close>.
\<close>

theorem Record_error_count:
  assumes "0 < B" and "rr_err (Record_with B fails (Some inp) db) = Some e"
  shows "persisted (rr_db (Record_with B fails (Some inp) db))
        = persisted db
          @ take ((length (batches (rr_db (Record_with B fails (Some inp) db)))
                     - length (batches db)) * B)
              (map row_of (decoded (in_lines inp)))
    \<and> (length (batches (rr_db (Record_with B fails (Some inp) db))) - length (batches db)) * B
        \<le> rr_count (Record_with B fails (Some inp) db)
    \<and> rr_count (Record_with B fails (Some inp) db)
        \<le> (length (batches (rr_db (Record_with B fails (Some inp) db)))
             - length (batches db)) * B + B
    \<and> rr_count (Record_with B fails (Some inp) db) \<le> length (decoded (in_lines inp))
    \<and> (e = BeginFailed \<longrightarrow> rr_count (Record_with B fails (Some inp) db) = 0)
    \<and> (e = InsertFailed \<longrightarrow>
          rr_count (Record_with B fails (Some inp) db) < length (decoded (in_lines inp))
          \<and> rr_count (Record_with B fails (Some inp) db)
              < (length (batches (rr_db (Record_with B fails (Some inp) db)))
                   - length (batches db)) * B + B)
    \<and> (e = CommitBatchFailed \<longrightarrow>
          rr_count (Record_with B fails (Some inp) db)
            = (length (batches (rr_db (Record_with B fails (Some inp) db)))
                 - length (batches db)) * B + B)
    \<and> (e = BeginNewFailed \<longrightarrow>
          rr_count (Record_with B fails (Some inp) db)
            = (length (batches (rr_db (Record_with B fails (Some inp) db)))
                 - length (batches db)) * B)
    \<and> (e = ReadFailed \<or> e = CommitFinalFailed \<longrightarrow>
          rr_count (Record_with B fails (Some inp) db) = length (decoded (in_lines inp)))
    \<and> (db_Begin fails db = (Some tx0, db0)
         \<and> Record_loop fails B (in_lines inp)
              \<lparr>ls_tx = tx0, ls_count = 0, ls_batchSize = 0, ls_out = [], ls_db = db0\<rparr>
            = Inl (InsertFailed, st') \<longrightarrow>
          e = InsertFailed
          \<and> rr_count (Record_with B fails (Some inp) db) = ls_count st'
          \<and> (\<exists>q. tx_open (ls_db st') (ls_tx st') q
                \<and> persisted (ls_db st') @ q
                    = persisted db
                      @ take (rr_count (Record_with B fails (Some inp) db))
                          (map row_of (decoded (in_lines inp)))))"
proof -
  let ?r = "Record_with B fails (Some inp) db"
  from assms(2) have ne: "rr_err ?r \<noteq> None" by simp
  note failed = run_failed_facts [OF Record_with_failed [OF assms(1) ne]]
  note kinds = Record_with_error_kinds [OF assms]
  from failed(4) have le: "rr_count ?r \<le> length (decoded (in_lines inp))"
    by simp
  have tie: "e = InsertFailed \<and> rr_count ?r = ls_count st'
      \<and> (\<exists>q. tx_open (ls_db st') (ls_tx st') q
            \<and> persisted (ls_db st') @ q
                = persisted db @ take (rr_count ?r) (map row_of (decoded (in_lines inp))))"
    if h: "db_Begin fails db = (Some tx0, db0)
        \<and> Record_loop fails B (in_lines inp)
             \<lparr>ls_tx = tx0, ls_count = 0, ls_batchSize = 0, ls_out = [], ls_db = db0\<rparr>
           = Inl (InsertFailed, st')"
  proof -
    from h have b: "db_Begin fails db = (Some tx0, db0)"
      and l: "Record_loop fails B (in_lines inp)
             \<lparr>ls_tx = tx0, ls_count = 0, ls_batchSize = 0, ls_out = [], ls_db = db0\<rparr>
           = Inl (InsertFailed, st')"
      by blast+
    note ins = Record_with_insert_failed [OF assms(1) b l]
    from ins(1) assms(2) have "e = InsertFailed" by simp
    with ins(2,3) show ?thesis by simp
  qed
  from failed(1,2,3) le kinds tie show ?thesis
    by (intro conjI impI) blast+
qed


text \<open>
  With threshold 2 and four lines that decode, the fourth insert fails (operation 6):
  one batch is committed, the third record is pending in the open transaction, and the
  count is 3. When instead the commit of the first batch fails (operation 3), nothing is
  persisted and the count is 2.
\<close>

theorem Record_error_count_witness:
  "0 < (2::nat)
   \<and> rr_err (Record_with 2 (fault_at 6) (file_of [line_a, line_b, line_a, line_b]) empty_DB)
       = Some InsertFailed
   \<and> db_Begin (fault_at 6) empty_DB = (Some 0, ls_db loop_start)
   \<and> Record_loop (fault_at 6) 2 [line_a, line_b, line_a, line_b] loop_start
       = Inl (InsertFailed, state_at_fault)
   \<and> rr_count (Record_with 2 (fault_at 6) (file_of [line_a, line_b, line_a, line_b]) empty_DB)
       = 3
   \<and> persisted (rr_db
         (Record_with 2 (fault_at 6) (file_of [line_a, line_b, line_a, line_b]) empty_DB))
       = persisted empty_DB
         @ take (1 * 2) (map row_of (decoded [line_a, line_b, line_a, line_b]))
   \<and> (\<exists>q. tx_open (ls_db state_at_fault) (ls_tx state_at_fault) q
         \<and> persisted (ls_db state_at_fault) @ q
             = persisted empty_DB
               @ take 3 (map row_of (decoded [line_a, line_b, line_a, line_b])))
   \<and> rr_err (Record_with 2 (fault_at 3) (file_of [line_a, line_b, line_a, line_b]) empty_DB)
       = Some CommitBatchFailed
   \<and> rr_count (Record_with 2 (fault_at 3) (file_of [line_a, line_b, line_a, line_b]) empty_DB)
       = 0 * 2 + 2"
proof -
  define inp where "inp = \<lparr>in_lines = [line_a, line_b, line_a, line_b], in_read_error = False\<rparr>"
  define r6 where "r6 = Record_with 2 (fault_at 6) (Some inp) empty_DB"
  define r3 where "r3 = Record_with 2 (fault_at 3) (Some inp) empty_DB"
  have B: "0 < (2::nat)" by simp
  have l: "in_lines inp = [line_a, line_b, line_a, line_b]"
    by (simp add: inp_def)
  have f: "file_of [line_a, line_b, line_a, line_b] = Some inp"
    by (simp add: file_of_def inp_def)
  have s0: "\<lparr>ls_tx = 0, ls_count = 0, ls_batchSize = 0, ls_out = [], ls_db = ls_db loop_start\<rparr>
      = loop_start"
    by (simp add: loop_start_def)
  have e6: "rr_err r6 = Some InsertFailed"
    and k6: "length (batches (rr_db r6)) - length (batches empty_DB) = 1"
    unfolding r6_def inp_def by code_simp+
  have e3: "rr_err r3 = Some CommitBatchFailed"
    and k3: "length (batches (rr_db r3)) - length (batches empty_DB) = 0"
    unfolding r3_def inp_def by code_simp+
  have bg: "db_Begin (fault_at 6) empty_DB = (Some 0, ls_db loop_start)"
    by code_simp
  have lp: "Record_loop (fault_at 6) 2 [line_a, line_b, line_a, line_b] loop_start
      = Inl (InsertFailed, state_at_fault)"
    by code_simp
  have c: "ls_count state_at_fault = 3"
    by (simp add: state_at_fault_def)
  note t6 = Record_error_count [where B = 2 and fails = "fault_at 6" and inp = inp
      and db = empty_DB and e = InsertFailed and ?tx0.0 = 0 and ?db0.0 = "ls_db loop_start"
      and st' = state_at_fault, OF B e6 [unfolded r6_def], folded r6_def, unfolded l s0 k6]
  note t3 = Record_error_count [where B = 2 and fails = "fault_at 3" and inp = inp
      and db = empty_DB and e = CommitBatchFailed, OF B e3 [unfolded r3_def], folded r3_def,
      unfolded k3]
  from t6 bg lp have n6: "rr_count r6 = ls_count state_at_fault"
    and q6: "\<exists>q. tx_open (ls_db state_at_fault) (ls_tx state_at_fault) q
         \<and> persisted (ls_db state_at_fault) @ q
             = persisted empty_DB
               @ take (rr_count r6) (map row_of (decoded [line_a, line_b, line_a, line_b]))"
    and p6: "persisted (rr_db r6) = persisted empty_DB
         @ take (1 * 2) (map row_of (decoded [line_a, line_b, line_a, line_b]))"
    by blast+
  from t3 have n3: "rr_count r3 = 0 * 2 + 2"
    by blast
  from n6 c have n6': "rr_count r6 = 3" by simp
  show ?thesis
    unfolding f r6_def [symmetric] r3_def [symmetric]
    using B e6 bg lp n6' p6 q6 [unfolded n6'] e3 n3 by (intro conjI)
qed

text \<open>
  The claim as stated fails on the count: the second insert of a file of two lines
  fails, nothing has been committed, and the count returned is 1.
\<close>

theorem Record_error_count_counterexample:
  "rr_err (Record (fault_at 2) (file_of [line_a, line_b]) empty_DB) = Some InsertFailed
   \<and> rr_count (Record (fault_at 2) (file_of [line_a, line_b]) empty_DB) = 1
   \<and> persisted (rr_db (Record (fault_at 2) (file_of [line_a, line_b]) empty_DB)) = []"
  by code_simp

section \<open>Empty lines and blank lines\<close>

text \<open>
  C9, amended. The lines that \<^verbatim>\<open>Record\<close> skips silently are the empty ones (no
  bytes at all): removing them from the input changes nothing in the result, be it the
  count, the messages, the error or the database. A line that is not empty but is empty
  after trimming white space is not skipped silently: it fails to decode as a line of
  one field, the warning for that is printed, and otherwise the loop goes on as if the
  line were not there, so no record is made and the line is not counted.
\<close>

theorem Record_empty_lines:
  "Record_with B fails (Some inp) db
     = Record_with B fails (Some (inp\<lparr>in_lines := filter (\<lambda>l. l \<noteq> []) (in_lines inp)\<rparr>)) db
   \<and> (line \<noteq> [] \<and> TrimSpace line = [] \<longrightarrow>
        Record_loop fails B (line # rest) st
          = Record_loop fails B rest (st\<lparr>ls_out := ls_out st @ [Warning (MalformedLine 1)]\<rparr>))"
proof (intro conjI impI)
  show "Record_with B fails (Some inp) db
      = Record_with B fails (Some (inp\<lparr>in_lines := filter (\<lambda>l. l \<noteq> []) (in_lines inp)\<rparr>)) db"
    by (simp add: Record_with_def Record_loop_skips_empty
        cong: option.case_cong prod.case_cong sum.case_cong if_cong)
next
  assume "line \<noteq> [] \<and> TrimSpace line = []"
  then have "line \<noteq> []" and "ParseEvent line = Inl (MalformedLine 1)"
    by (simp_all add: ParseEvent_blank)
  then show "Record_loop fails B (line # rest) st
      = Record_loop fails B rest (st\<lparr>ls_out := ls_out st @ [Warning (MalformedLine 1)]\<rparr>)"
    by simp
qed


theorem Record_empty_lines_witness:
  "blank_line \<noteq> [] \<and> TrimSpace blank_line = []
   \<and> Record_loop no_faults 2 (blank_line # [line_a]) loop_start
       = Record_loop no_faults 2 [line_a]
           (loop_start\<lparr>ls_out := ls_out loop_start @ [Warning (MalformedLine 1)]\<rparr>)
   \<and> Record_with 2 no_faults (Some \<lparr>in_lines = [[], line_a, []], in_read_error = False\<rparr>) empty_DB
       = Record_with 2 no_faults (Some \<lparr>in_lines = [line_a], in_read_error = False\<rparr>) empty_DB"
proof -
  have b: "blank_line \<noteq> [] \<and> TrimSpace blank_line = []"
    by code_simp
  have l: "line_a \<noteq> []"
    by (simp add: line_a_def)
  from Record_empty_lines [of 2 no_faults "\<lparr>in_lines = [[], line_a, []], in_read_error = False\<rparr>"
      empty_DB blank_line "[line_a]" loop_start] b l
  show ?thesis by simp
qed

text \<open>
  The claim as stated fails on a line of white space: it is not skipped silently, a
  warning is printed for it.
\<close>

theorem Record_empty_lines_counterexample:
  "TrimSpace blank_line = []
   \<and> rr_out (Record no_faults (file_of [blank_line]) empty_DB) = [Warning (MalformedLine 1)]"
  by code_simp

section \<open>A bound at the zero time\<close>

text \<open>
  C10. A bound that is the zero time is the same as no bound. When \<open>From\<close> is zero,
  \<^verbatim>\<open>Validate\<close> succeeds whatever \<open>To\<close> is, \<^verbatim>\<open>Query\<close> answers as it does for
  the filters with \<open>From\<close> replaced by \<^verbatim>\<open>time.Time{}\<close>, and a row is selected
  without regard to a lower bound on its timestamp; likewise for \<open>To\<close> and the upper
  bound. So an inclusive bound at the zero instant itself cannot be asked for.
\<close>

theorem zero_bound_is_absent:
  "(IsZero (From f) \<longrightarrow>
      Validate f = None
      \<and> Query fails uid f db = Query fails uid (f\<lparr>From := zero_Time\<rparr>) db
      \<and> matches (where_conditions uid f) r =
          (row_user_id r = uid
           \<and> (qf_EventType f = [] \<or> row_event_type r = qf_EventType f)
           \<and> (IsZero (To f) \<or> row_timestamp r \<le> Format_RFC3339 (To f))))
   \<and> (IsZero (To f) \<longrightarrow>
      Validate f = None
      \<and> Query fails uid f db = Query fails uid (f\<lparr>To := zero_Time\<rparr>) db
      \<and> matches (where_conditions uid f) r =
          (row_user_id r = uid
           \<and> (qf_EventType f = [] \<or> row_event_type r = qf_EventType f)
           \<and> (IsZero (From f) \<or> Format_RFC3339 (From f) \<le> row_timestamp r)))"
proof (intro conjI impI)
  assume z: "IsZero (From f)"
  then show "Validate f = None"
    by (simp add: Validate_def)
  from z have wc: "where_conditions uid (f\<lparr>From := zero_Time\<rparr>) = where_conditions uid f"
    by (simp add: where_conditions_def IsZero_zero_Time)
  from z have v: "Validate (f\<lparr>From := zero_Time\<rparr>) = Validate f"
    by (simp add: Validate_def IsZero_zero_Time)
  show "Query fails uid f db = Query fails uid (f\<lparr>From := zero_Time\<rparr>) db"
    unfolding Query_def wc v by (rule refl)
  from z show "matches (where_conditions uid f) r =
      (row_user_id r = uid
       \<and> (qf_EventType f = [] \<or> row_event_type r = qf_EventType f)
       \<and> (IsZero (To f) \<or> row_timestamp r \<le> Format_RFC3339 (To f)))"
    by (simp add: matches_where_conditions)
next
  assume z: "IsZero (To f)"
  then show "Validate f = None"
    by (simp add: Validate_def)
  from z have wc: "where_conditions uid (f\<lparr>To := zero_Time\<rparr>) = where_conditions uid f"
    by (simp add: where_conditions_def IsZero_zero_Time)
  from z have v: "Validate (f\<lparr>To := zero_Time\<rparr>) = Validate f"
    by (simp add: Validate_def IsZero_zero_Time)
  show "Query fails uid f db = Query fails uid (f\<lparr>To := zero_Time\<rparr>) db"
    unfolding Query_def wc v by (rule refl)
  from z show "matches (where_conditions uid f) r =
      (row_user_id r = uid
       \<and> (qf_EventType f = [] \<or> row_event_type r = qf_EventType f)
       \<and> (IsZero (From f) \<or> Format_RFC3339 (From f) \<le> row_timestamp r))"
    by (simp add: matches_where_conditions)
qed

text \<open>
  The filter asks for the events of user 42 from the zero instant on, written with an
  offset of one hour, up to 11 o'clock. The event of year 0 lies before that instant and
  is selected all the same.
\<close>

theorem zero_bound_is_absent_witness:
  "IsZero zero_east
   \<and> Validate \<lparr>qf_EventType = [], From = zero_east, To = time_11\<rparr> = None
   \<and> Query no_faults 42 \<lparr>qf_EventType = [], From = zero_east, To = time_11\<rparr> sample_DB
       = Query no_faults 42 \<lparr>qf_EventType = [], From = zero_Time, To = time_11\<rparr> sample_DB
   \<and> matches (where_conditions 42 \<lparr>qf_EventType = [], From = zero_east, To = time_11\<rparr>)
        (hd sample_rows)
   \<and> IsZero (To \<lparr>qf_EventType = [], From = time_10, To = zero_east\<rparr>)
   \<and> Validate \<lparr>qf_EventType = [], From = time_10, To = zero_east\<rparr> = None"
proof -
  let ?f = "\<lparr>qf_EventType = [], From = zero_east, To = time_11\<rparr>"
  let ?g = "\<lparr>qf_EventType = [], From = time_10, To = zero_east\<rparr>"
  have z: "IsZero zero_east"
    by code_simp
  have nz: "\<not> IsZero time_11"
    by code_simp
  have upper: "row_user_id (hd sample_rows) = 42
      \<and> row_timestamp (hd sample_rows) \<le> Format_RFC3339 time_11"
    by code_simp
  from zero_bound_is_absent [of ?f no_faults 42 sample_DB "hd sample_rows"] z nz
  have "Validate ?f = None"
    and "Query no_faults 42 ?f sample_DB = Query no_faults 42 (?f\<lparr>From := zero_Time\<rparr>) sample_DB"
    and "matches (where_conditions 42 ?f) (hd sample_rows) =
          (row_user_id (hd sample_rows) = 42
           \<and> row_timestamp (hd sample_rows) \<le> Format_RFC3339 time_11)"
    by simp_all
  moreover from zero_bound_is_absent [of ?g no_faults 42 sample_DB "hd sample_rows"] z
  have "Validate ?g = None"
    by simp
  ultimately show ?thesis
    using z upper by simp
qed

end
